theory Spec2Isabelle
  imports Main "HOL-Library.Word"
begin

section \<open>Shared types\<close>

text \<open>
  The source is the directive-resolution layer of scnlib:
  \<^verbatim>\<open>include/scn/detail/parse_context.h\<close> (argument numbering and the three
  parse contexts) and \<^verbatim>\<open>include/scn/detail/context.h\<close> (the argument
  binder \<^verbatim>\<open>arg_context_base\<close>).

  \<^verbatim>\<open>int\<close> is a 32-bit word read as two's complement (\<open>sint\<close>, \<open>\<le>s\<close>,
  \<open><s\<close>); \<^verbatim>\<open>size_t\<close> is a 64-bit word, so that \<^verbatim>\<open>id - 1\<close> wraps at 0 as it
  does in the source. Signed overflow of \<^verbatim>\<open>m_next_arg_id++\<close> and
  \<^verbatim>\<open>--m_args_left\<close> is undefined in C++; the word operations wrap there, and
  every theorem that depends on the value after such a step says which counter
  values it covers.
\<close>

type_synonym c_int = "32 word"
type_synonym size_t = "64 word"

text \<open>
  The error value of \<^verbatim>\<open>result.h\<close>: a kind and a message. Only the two kinds
  that the two source files construct are listed.
\<close>

datatype error_code = invalid_format_string | invalid_argument

datatype error = Error error_code string

text \<open>\<^verbatim>\<open>either<T>\<close>: an error (\<open>Inl\<close>) or a value (\<open>Inr\<close>).\<close>

type_synonym 'a either = "error + 'a"

text \<open>
  Modelled from the spec: the contract macros \<^verbatim>\<open>SCN_EXPECT\<close> and
  \<^verbatim>\<open>SCN_UNREACHABLE\<close> (their definitions are not part of the two source
  files). The spec treats a failed precondition as a non-recoverable violation
  that signals a caller bug: the call does not return a value. A function whose
  source has such a check returns \<open>abort + 'a\<close>, with \<open>Inl\<close> for the violation.
  Reading the front of an empty view, or through an iterator at the end of the
  view, is outside the view's contract and modelled the same way.
\<close>

datatype abort = Precondition_violation

type_synonym 'a expect = "abort + 'a"

fun and_then :: "'a expect \<Rightarrow> ('a \<Rightarrow> 'b expect) \<Rightarrow> 'b expect" where
  "and_then (Inl e) f = Inl e"
| "and_then (Inr x) f = f x"

text \<open>
  The locale collaborator, consumed through \<^verbatim>\<open>is_space\<close> only.
\<close>

record locale_ref =
  is_space :: "char \<Rightarrow> bool"

text \<open>
  Modelled from the spec: a concrete locale for runs on concrete inputs, with the
  six space characters of the C locale (\<^verbatim>\<open>locale.h\<close> is not part of the two
  source files).
\<close>

definition c_locale :: locale_ref where
  "c_locale =
     \<lparr>is_space = (\<lambda>c. c = CHR '' '' \<or> c = CHR 0x09 \<or> c = CHR 0x0A \<or> c = CHR 0x0B
                          \<or> c = CHR 0x0C \<or> c = CHR 0x0D)\<rparr>"

section \<open>Argument numbering: \<^verbatim>\<open>parse_context_base\<close>\<close>

record parse_context_base =
  m_next_arg_id :: c_int

text \<open>
  \<^verbatim>\<open>if (m_next_arg_id >= 0) return static_cast<size_t>(m_next_arg_id++); return 0;\<close>
  The result is paired with the updated object.
\<close>

definition next_arg_id ::
  "'a parse_context_base_scheme \<Rightarrow> size_t \<times> 'a parse_context_base_scheme" where
  "next_arg_id p =
     (if 0 \<le>s m_next_arg_id p
      then (scast (m_next_arg_id p), p\<lparr>m_next_arg_id := m_next_arg_id p + 1\<rparr>)
      else (0, p))"

text \<open>
  \<^verbatim>\<open>check_arg_id(size_t)\<close>: the parameter is unnamed and unused in the source.
\<close>

definition check_arg_id ::
  "size_t \<Rightarrow> 'a parse_context_base_scheme \<Rightarrow> bool \<times> 'a parse_context_base_scheme" where
  "check_arg_id i p =
     (if 0 <s m_next_arg_id p then (False, p)
      else (True, p\<lparr>m_next_arg_id := - 1\<rparr>))"

text \<open>
  \<^verbatim>\<open>basic_parse_context_base::check_arg_id(basic_string_view<Char>) {}\<close>:
  an empty body.
\<close>

definition check_arg_id_name ::
  "string \<Rightarrow> 'a parse_context_base_scheme \<Rightarrow> 'a parse_context_base_scheme" where
  "check_arg_id_name name p = p"

text \<open>
  The three logical states that the spec reads off the sign of the counter:
  zero is \<^emph>\<open>uninitialized\<close>, positive is \<^emph>\<open>automatic\<close>, negative is
  \<^emph>\<open>explicit-locked\<close>.
\<close>

datatype numbering = Uninitialized | Automatic | Explicit_locked

definition numbering_state :: "'a parse_context_base_scheme \<Rightarrow> numbering" where
  "numbering_state p =
     (if m_next_arg_id p = 0 then Uninitialized
      else if 0 <s m_next_arg_id p then Automatic
      else Explicit_locked)"

text \<open>The largest value of \<^verbatim>\<open>int\<close>.\<close>

definition INT_MAX :: c_int where
  "INT_MAX = 2147483647"

section \<open>Brace dialect: \<^verbatim>\<open>basic_parse_context\<close>\<close>

text \<open>
  \<^verbatim>\<open>m_str\<close> is the view of the format string that is still to be read;
  \<^verbatim>\<open>advance\<close> removes a prefix of it. Sizes and offsets inside a view are
  natural numbers.
\<close>

record basic_parse_context = parse_context_base +
  m_str :: string

definition basic_parse_context :: "string \<Rightarrow> basic_parse_context" where
  "basic_parse_context f = \<lparr>m_next_arg_id = 0, m_str = f\<rparr>"

definition good :: "'a basic_parse_context_scheme \<Rightarrow> bool" where
  "good s = (m_str s \<noteq> [])"

text \<open>
  \<^verbatim>\<open>SCN_EXPECT(good()); m_str.remove_prefix(n);\<close> Removing more than the view
  holds is outside the view's contract.
\<close>

definition advance ::
  "nat \<Rightarrow> 'a basic_parse_context_scheme \<Rightarrow> 'a basic_parse_context_scheme expect" where
  "advance n s =
     (if good s \<and> n \<le> length (m_str s) then Inr (s\<lparr>m_str := drop n (m_str s)\<rparr>)
      else Inl Precondition_violation)"

text \<open>\<^verbatim>\<open>return m_str.front();\<close>\<close>

definition "next" :: "'a basic_parse_context_scheme \<Rightarrow> char expect" where
  "next s = (case m_str s of [] \<Rightarrow> Inl Precondition_violation | c # cs \<Rightarrow> Inr c)"

definition should_read_literal ::
  "locale_ref \<Rightarrow> 'a basic_parse_context_scheme
     \<Rightarrow> (bool \<times> 'a basic_parse_context_scheme) expect" where
  "should_read_literal loc s =
     and_then (next s) (\<lambda>c.
       if c \<noteq> CHR ''{'' then
         (if c = CHR ''}'' then and_then (advance 1 s) (\<lambda>s'. Inr (True, s'))
          else Inr (True, s))
       else if 1 < length (m_str s) \<and> m_str s ! 1 = CHR ''{''
         then and_then (advance 1 s) (\<lambda>s'. Inr (True, s'))
       else Inr (False, s))"

definition check_literal :: "char \<Rightarrow> 'a basic_parse_context_scheme \<Rightarrow> bool expect" where
  "check_literal ch s = and_then (next s) (\<lambda>c. Inr (ch = c))"

definition check_arg_begin ::
  "locale_ref \<Rightarrow> 'a basic_parse_context_scheme \<Rightarrow> bool expect" where
  "check_arg_begin loc s = and_then (next s) (\<lambda>c. Inr (c = CHR ''{''))"

definition check_arg_end ::
  "locale_ref \<Rightarrow> 'a basic_parse_context_scheme \<Rightarrow> bool expect" where
  "check_arg_end loc s = and_then (next s) (\<lambda>c. Inr (c = CHR ''}''))"

text \<open>
  The loop of \<^verbatim>\<open>parse_arg_id\<close>,
  \<^verbatim>\<open>for (size_t i = 0; good(); ++i, (void)advance())\<close>, on the view that is
  left: \<open>it\<close> is the view at the start of the loop, \<open>i\<close> the number of
  characters passed, and \<^verbatim>\<open>string_view_type{it, i}\<close> is \<open>take i it\<close>. The
  first equation is the exit of the loop when \<^verbatim>\<open>good()\<close> fails; in the second
  the view is not empty, so \<^verbatim>\<open>check_arg_end\<close>, \<^verbatim>\<open>next\<close> and \<^verbatim>\<open>advance\<close> are
  within their contracts: \<open>c\<close> is \<^verbatim>\<open>next()\<close> and \<open>cs\<close> the view after
  \<^verbatim>\<open>advance()\<close>. The result is paired with the view that remains.
\<close>

fun parse_arg_id_loop :: "string \<Rightarrow> nat \<Rightarrow> string \<Rightarrow> string either \<times> string" where
  "parse_arg_id_loop it i [] =
     (Inl (Error invalid_format_string ''Unexpected end of format argument''), [])"
| "parse_arg_id_loop it i (c # cs) =
     (if c = CHR ''}'' then (Inr (take i it), c # cs)
      else if c = CHR '':'' then (Inr (take i it), cs)
      else parse_arg_id_loop it (Suc i) cs)"

definition parse_arg_id ::
  "locale_ref \<Rightarrow> 'a basic_parse_context_scheme
     \<Rightarrow> (string either \<times> 'a basic_parse_context_scheme) expect" where
  "parse_arg_id loc s =
     (if \<not> good s then Inl Precondition_violation
      else and_then (advance 1 s) (\<lambda>s1.
        if \<not> good s1
        then Inr (Inl (Error invalid_format_string ''Unexpected end of format argument''), s1)
        else (case parse_arg_id_loop (m_str s1) 0 (m_str s1) of
                (r, rest) \<Rightarrow> Inr (r, s1\<lparr>m_str := rest\<rparr>))))"

section \<open>Percent dialect: \<^verbatim>\<open>basic_scanf_parse_context\<close>\<close>

text \<open>
  The view \<^verbatim>\<open>m_str\<close> stays whole here (field \<open>scanf_m_str\<close>); the iterator
  \<^verbatim>\<open>m_it\<close> is its offset from \<^verbatim>\<open>m_str.begin()\<close>, and \<^verbatim>\<open>m_str.end()\<close> is the
  offset \<open>length (scanf_m_str s)\<close>.
\<close>

record basic_scanf_parse_context = parse_context_base +
  scanf_m_str :: string
  m_it :: nat

definition basic_scanf_parse_context :: "string \<Rightarrow> basic_scanf_parse_context" where
  "basic_scanf_parse_context f = \<lparr>m_next_arg_id = 0, scanf_m_str = f, m_it = 0\<rparr>"

definition scanf_good :: "'a basic_scanf_parse_context_scheme \<Rightarrow> bool" where
  "scanf_good s = (m_it s \<noteq> length (scanf_m_str s))"

text \<open>
  \<^verbatim>\<open>SCN_EXPECT(good()); m_it += n;\<close> Moving the iterator past the end of the
  view is outside the iterator's contract.
\<close>

definition scanf_advance ::
  "nat \<Rightarrow> 'a basic_scanf_parse_context_scheme
     \<Rightarrow> 'a basic_scanf_parse_context_scheme expect" where
  "scanf_advance n s =
     (if scanf_good s \<and> m_it s + n \<le> length (scanf_m_str s)
      then Inr (s\<lparr>m_it := m_it s + n\<rparr>)
      else Inl Precondition_violation)"

text \<open>\<^verbatim>\<open>return *m_it;\<close>\<close>

definition scanf_next :: "'a basic_scanf_parse_context_scheme \<Rightarrow> char expect" where
  "scanf_next s =
     (if m_it s < length (scanf_m_str s) then Inr (scanf_m_str s ! m_it s)
      else Inl Precondition_violation)"

definition scanf_should_read_literal ::
  "locale_ref \<Rightarrow> 'a basic_scanf_parse_context_scheme
     \<Rightarrow> (bool \<times> 'a basic_scanf_parse_context_scheme) expect" where
  "scanf_should_read_literal loc s =
     and_then (scanf_next s) (\<lambda>c.
       if c \<noteq> CHR ''%'' then Inr (True, s)
       else if m_it s + 1 < length (scanf_m_str s)
               \<and> scanf_m_str s ! (m_it s + 1) = CHR ''%''
         then and_then (scanf_advance 1 s) (\<lambda>s'. Inr (True, s'))
       else Inr (False, s))"

definition scanf_check_literal ::
  "char \<Rightarrow> 'a basic_scanf_parse_context_scheme \<Rightarrow> bool expect" where
  "scanf_check_literal ch s = and_then (scanf_next s) (\<lambda>c. Inr (ch = c))"

definition scanf_check_arg_begin ::
  "locale_ref \<Rightarrow> 'a basic_scanf_parse_context_scheme \<Rightarrow> bool expect" where
  "scanf_check_arg_begin loc s = and_then (scanf_next s) (\<lambda>c. Inr (c = CHR ''%''))"

text \<open>
  \<^verbatim>\<open>return !good() || check_arg_begin(loc) || loc.is_space(next());\<close> with the
  short-circuit evaluation of \<^verbatim>\<open>||\<close>.
\<close>

definition scanf_check_arg_end ::
  "locale_ref \<Rightarrow> 'a basic_scanf_parse_context_scheme \<Rightarrow> bool expect" where
  "scanf_check_arg_end loc s =
     (if \<not> scanf_good s then Inr True
      else and_then (scanf_check_arg_begin loc s) (\<lambda>b.
        if b then Inr True
        else and_then (scanf_next s) (\<lambda>c. Inr (is_space loc c))))"

definition scanf_arg_begin ::
  "'a basic_scanf_parse_context_scheme \<Rightarrow> 'a basic_scanf_parse_context_scheme expect" where
  "scanf_arg_begin s = scanf_advance 1 s"

text \<open>\<^verbatim>\<open>SCN_EXPECT(m_it != m_str.begin()); m_it -= n;\<close>\<close>

definition backward ::
  "nat \<Rightarrow> 'a basic_scanf_parse_context_scheme
     \<Rightarrow> 'a basic_scanf_parse_context_scheme expect" where
  "backward n s =
     (if m_it s \<noteq> 0 \<and> n \<le> m_it s then Inr (s\<lparr>m_it := m_it s - n\<rparr>)
      else Inl Precondition_violation)"

text \<open>\<^verbatim>\<open>if (good()) { backward(); }\<close>\<close>

definition scanf_arg_end ::
  "'a basic_scanf_parse_context_scheme \<Rightarrow> 'a basic_scanf_parse_context_scheme expect" where
  "scanf_arg_end s = (if scanf_good s then backward 1 s else Inr s)"

text \<open>
  The moves of the cursor inside a directive: a run of \<^verbatim>\<open>advance(n)\<close> calls,
  each within its contract.
\<close>

fun scanf_advances ::
  "nat list \<Rightarrow> 'a basic_scanf_parse_context_scheme
     \<Rightarrow> 'a basic_scanf_parse_context_scheme expect" where
  "scanf_advances [] s = Inr s"
| "scanf_advances (n # ns) s = and_then (scanf_advance n s) (scanf_advances ns)"

section \<open>Positional dialect: \<^verbatim>\<open>basic_empty_parse_context\<close>\<close>

record basic_empty_parse_context = parse_context_base +
  m_args_left :: c_int
  m_should_skip_ws :: bool

definition basic_empty_parse_context :: "c_int \<Rightarrow> basic_empty_parse_context" where
  "basic_empty_parse_context args =
     \<lparr>m_next_arg_id = 0, m_args_left = args, m_should_skip_ws = False\<rparr>"

definition empty_should_skip_ws ::
  "locale_ref \<Rightarrow> 'a basic_empty_parse_context_scheme
     \<Rightarrow> bool \<times> 'a basic_empty_parse_context_scheme" where
  "empty_should_skip_ws loc s =
     (if m_should_skip_ws s then (True, s\<lparr>m_should_skip_ws := False\<rparr>)
      else (False, s))"

definition empty_good :: "'a basic_empty_parse_context_scheme \<Rightarrow> bool" where
  "empty_good s = (0 <s m_args_left s)"

text \<open>\<^verbatim>\<open>SCN_EXPECT(false); SCN_UNREACHABLE;\<close>\<close>

definition empty_next :: "'a basic_empty_parse_context_scheme \<Rightarrow> char expect" where
  "empty_next s = Inl Precondition_violation"

text \<open>\<^verbatim>\<open>m_should_skip_ws = true; --m_args_left;\<close>\<close>

definition empty_arg_handled ::
  "'a basic_empty_parse_context_scheme \<Rightarrow> 'a basic_empty_parse_context_scheme" where
  "empty_arg_handled s = s\<lparr>m_should_skip_ws := True, m_args_left := m_args_left s - 1\<rparr>"

text \<open>
  \<open>n\<close> calls of \<^verbatim>\<open>should_skip_ws\<close> in a row, with the answers in call order.
\<close>

fun should_skip_ws_calls ::
  "locale_ref \<Rightarrow> nat \<Rightarrow> 'a basic_empty_parse_context_scheme
     \<Rightarrow> bool list \<times> 'a basic_empty_parse_context_scheme" where
  "should_skip_ws_calls loc 0 s = ([], s)"
| "should_skip_ws_calls loc (Suc n) s =
     (case empty_should_skip_ws loc s of
        (b, s') \<Rightarrow> (case should_skip_ws_calls loc n s' of (bs, s'') \<Rightarrow> (b # bs, s'')))"

section \<open>Argument binder: \<^verbatim>\<open>arg_context_base\<close>\<close>

text \<open>
  Modelled from the spec: the argument store \<^verbatim>\<open>basic_args\<close> (\<^verbatim>\<open>args.h\<close> is not
  part of the two source files). The spec gives its interface:
  \<^verbatim>\<open>get(index) -> optional<slot>\<close> and \<^verbatim>\<open>check_id(index) -> bool\<close>. Both are
  parameters here; \<open>None\<close> is the empty \<^verbatim>\<open>arg_type\<close>, for which
  \<^verbatim>\<open>operator bool\<close> is false.
\<close>

record 'slot basic_args =
  get :: "size_t \<Rightarrow> 'slot option"
  check_id :: "size_t \<Rightarrow> bool"

text \<open>
  Modelled from the spec: a store that holds the supplied arguments \<open>xs\<close> in
  order and knows exactly the ids below their number. It is used for concrete
  runs only.
\<close>

definition list_store :: "'slot list \<Rightarrow> 'slot basic_args" where
  "list_store xs =
     \<lparr>get = (\<lambda>i. if unat i < length xs then Some (xs ! unat i) else None),
      check_id = (\<lambda>i. unat i < length xs)\<rparr>"

text \<open>
  Of the members of \<^verbatim>\<open>arg_context_base\<close> and \<^verbatim>\<open>context_base\<close>, the parse
  context and the store are the two that argument resolution reads or writes.
\<close>

record ('p, 'slot) arg_context_base =
  parse_context :: "'p parse_context_base_scheme"
  m_args :: "'slot basic_args"

type_synonym 'slot arg_result = "'slot option either"

definition do_get_arg :: "('p, 'slot) arg_context_base \<Rightarrow> size_t \<Rightarrow> 'slot arg_result" where
  "do_get_arg ctx i =
     (let a = get (m_args ctx) i
      in if a = None \<and> \<not> check_id (m_args ctx) (i - 1)
         then Inl (Error invalid_argument ''Argument id out of range'')
         else Inr a)"

text \<open>\<^verbatim>\<open>return this->do_get_arg(this->parse_context().next_arg_id());\<close>\<close>

definition next_arg ::
  "('p, 'slot) arg_context_base \<Rightarrow> 'slot arg_result \<times> ('p, 'slot) arg_context_base" where
  "next_arg ctx =
     (case next_arg_id (parse_context ctx) of
        (i, p) \<Rightarrow> (let ctx' = ctx\<lparr>parse_context := p\<rparr> in (do_get_arg ctx' i, ctx')))"

text \<open>
  \<^verbatim>\<open>return this->parse_context().check_arg_id(id) ? do_get_arg(id) : arg_type();\<close>
\<close>

definition arg ::
  "size_t \<Rightarrow> ('p, 'slot) arg_context_base
     \<Rightarrow> 'slot arg_result \<times> ('p, 'slot) arg_context_base" where
  "arg i ctx =
     (case check_arg_id i (parse_context ctx) of
        (ok, p) \<Rightarrow> (let ctx' = ctx\<lparr>parse_context := p\<rparr>
                    in (if ok then do_get_arg ctx' i else Inr None, ctx')))"

text \<open>\<^verbatim>\<open>either<arg_type> arg(basic_string_view<char_type>) { return arg_type{}; }\<close>\<close>

definition arg_name ::
  "string \<Rightarrow> ('p, 'slot) arg_context_base
     \<Rightarrow> 'slot arg_result \<times> ('p, 'slot) arg_context_base" where
  "arg_name name ctx = (Inr None, ctx)"

text \<open>
  The three ways a directive asks the binder for its argument, and a run of such
  requests on one context, with the results in request order. A format string
  that uses only \<^verbatim>\<open>{}\<close> is a run of \<open>Next_arg\<close>; one that uses only \<^verbatim>\<open>{N}\<close>
  is a run of \<open>Arg N\<close>.
\<close>

datatype request = Next_arg | Arg size_t | Arg_name string

fun resolve ::
  "request \<Rightarrow> ('p, 'slot) arg_context_base
     \<Rightarrow> 'slot arg_result \<times> ('p, 'slot) arg_context_base" where
  "resolve Next_arg ctx = next_arg ctx"
| "resolve (Arg i) ctx = arg i ctx"
| "resolve (Arg_name name) ctx = arg_name name ctx"

fun resolve_all ::
  "request list \<Rightarrow> ('p, 'slot) arg_context_base
     \<Rightarrow> 'slot arg_result list \<times> ('p, 'slot) arg_context_base" where
  "resolve_all [] ctx = ([], ctx)"
| "resolve_all (r # rs) ctx =
     (case resolve r ctx of
        (x, ctx') \<Rightarrow> (case resolve_all rs ctx' of (xs, ctx'') \<Rightarrow> (x # xs, ctx'')))"

section \<open>Arithmetic of the counter\<close>

lemma sint_succ_in_range:
  fixes m :: c_int
  assumes "0 \<le>s m" and "m \<noteq> INT_MAX"
  shows "sint (m + 1) = sint m + 1"
proof -
  have lo: "0 \<le> sint m"
    using assms(1) by (simp add: word_sle_eq)
  have "sint m \<noteq> 2147483647"
  proof
    assume "sint m = 2147483647"
    then have "word_of_int (sint m) = (word_of_int 2147483647 :: c_int)"
      by simp
    then show False
      using assms(2) by (simp add: INT_MAX_def)
  qed
  moreover have "sint m < 2 ^ 31"
    using sint_lt [of m] by simp
  ultimately have hi: "sint m + 1 < 2 ^ 31"
    by simp
  have "sint (m + 1) = signed_take_bit 31 (sint m + 1)"
    by (simp add: sint_word_ariths)
  also have "\<dots> = sint m + 1"
    using lo hi by (simp add: signed_take_bit_int_eq_self)
  finally show ?thesis .
qed

lemma sint_zero_iff: "sint (m :: c_int) = 0 \<longleftrightarrow> m = 0"
  by (rule signed_eq_0_iff)

lemma locked_iff: "numbering_state p = Explicit_locked \<longleftrightarrow> m_next_arg_id p <s 0"
  using sint_zero_iff [of "m_next_arg_id p"]
  by (auto simp: numbering_state_def word_sless_alt split: if_splits)

lemma unlocked_iff: "0 \<le>s m_next_arg_id p \<longleftrightarrow> numbering_state p \<noteq> Explicit_locked"
  by (auto simp: locked_iff word_sless_alt word_sle_eq)

lemma automatic_iff: "numbering_state p = Automatic \<longleftrightarrow> 0 <s m_next_arg_id p"
  by (auto simp: numbering_state_def word_sless_alt split: if_splits)

lemma uninitialized_iff: "numbering_state p = Uninitialized \<longleftrightarrow> m_next_arg_id p = 0"
  by (auto simp: numbering_state_def split: if_splits)

lemma minus_one_locked: "numbering_state (p\<lparr>m_next_arg_id := - 1\<rparr>) = Explicit_locked"
  by (simp add: locked_iff word_sless_alt)

lemma succ_automatic:
  assumes "0 \<le>s m_next_arg_id p" and "m_next_arg_id p \<noteq> INT_MAX"
  shows "numbering_state (p\<lparr>m_next_arg_id := m_next_arg_id p + 1\<rparr>) = Automatic"
  using assms sint_succ_in_range [OF assms]
  by (simp add: automatic_iff word_sless_alt word_sle_eq)

lemma scast_nonneg_unat:
  fixes m :: c_int
  assumes "0 \<le>s m"
  shows "unat (scast m :: size_t) = nat (sint m)"
proof -
  have lo: "0 \<le> sint m"
    using assms by (simp add: word_sle_eq)
  have "sint m < 2 ^ 31"
    using sint_lt [of m] by simp
  then have hi: "sint m < 2 ^ 64"
    by simp
  have "uint (scast m :: size_t) = sint m mod 2 ^ LENGTH(64)"
    by (simp only: scast_eq uint_word_of_int)
  also have "\<dots> = sint m"
    using lo hi by simp
  finally have "uint (scast m :: size_t) = sint m" .
  then show ?thesis
    by (simp add: unat_eq_nat_uint)
qed

section \<open>Claim C4: the numbering state machine\<close>

text \<open>
  Claim C4. \<^verbatim>\<open>next_arg_id\<close> (the spec's \<open>next_automatic_id\<close>) in the
  uninitialized or automatic state returns the current counter and increments
  it, which leaves the state automatic; in the explicit-locked state it returns
  0 and changes nothing. \<^verbatim>\<open>check_arg_id\<close> (the spec's \<open>lock_explicit\<close>) in the
  uninitialized state returns true and locks, in the automatic state returns
  false and changes nothing, in the explicit-locked state returns true and stays
  locked; the index \<open>i\<close> that is passed plays no role. The one counter value
  left out of the statement about the state after the increment is
  \<^verbatim>\<open>INT_MAX\<close>, where \<^verbatim>\<open>m_next_arg_id++\<close> is a signed overflow.
\<close>

theorem arg_numbering_state_machine:
  fixes p :: "'a parse_context_base_scheme" and i :: size_t
  shows "(numbering_state p \<noteq> Explicit_locked \<longrightarrow>
            next_arg_id p = (scast (m_next_arg_id p), p\<lparr>m_next_arg_id := m_next_arg_id p + 1\<rparr>)
            \<and> unat (fst (next_arg_id p)) = nat (sint (m_next_arg_id p))
            \<and> (m_next_arg_id p \<noteq> INT_MAX \<longrightarrow>
                 numbering_state (snd (next_arg_id p)) = Automatic
                 \<and> sint (m_next_arg_id (snd (next_arg_id p))) = sint (m_next_arg_id p) + 1))
       \<and> (numbering_state p = Explicit_locked \<longrightarrow> next_arg_id p = (0, p))
       \<and> (numbering_state p = Uninitialized \<longrightarrow>
            fst (check_arg_id i p) = True
            \<and> numbering_state (snd (check_arg_id i p)) = Explicit_locked)
       \<and> (numbering_state p = Automatic \<longrightarrow> check_arg_id i p = (False, p))
       \<and> (numbering_state p = Explicit_locked \<longrightarrow>
            fst (check_arg_id i p) = True
            \<and> numbering_state (snd (check_arg_id i p)) = Explicit_locked)"
proof (intro conjI impI)
  assume a: "numbering_state p \<noteq> Explicit_locked"
  then have nn: "0 \<le>s m_next_arg_id p"
    by (simp add: unlocked_iff)
  then show eq: "next_arg_id p = (scast (m_next_arg_id p), p\<lparr>m_next_arg_id := m_next_arg_id p + 1\<rparr>)"
    by (simp add: next_arg_id_def)
  show "unat (fst (next_arg_id p)) = nat (sint (m_next_arg_id p))"
    using nn by (simp add: eq scast_nonneg_unat)
  assume b: "m_next_arg_id p \<noteq> INT_MAX"
  show "numbering_state (snd (next_arg_id p)) = Automatic"
    using nn b by (simp add: eq succ_automatic)
  show "sint (m_next_arg_id (snd (next_arg_id p))) = sint (m_next_arg_id p) + 1"
    using nn b by (simp add: eq sint_succ_in_range)
next
  assume "numbering_state p = Explicit_locked"
  then have neg: "m_next_arg_id p <s 0"
    by (simp add: locked_iff)
  then show "next_arg_id p = (0, p)"
    by (simp add: next_arg_id_def word_sless_alt word_sle_eq)
  have "\<not> 0 <s m_next_arg_id p"
    using neg by (simp add: word_sless_alt)
  then have eq: "check_arg_id i p = (True, p\<lparr>m_next_arg_id := - 1\<rparr>)"
    by (simp add: check_arg_id_def)
  show "fst (check_arg_id i p) = True"
    by (simp add: eq)
  show "numbering_state (snd (check_arg_id i p)) = Explicit_locked"
    by (simp add: eq minus_one_locked)
next
  assume "numbering_state p = Uninitialized"
  then have z: "m_next_arg_id p = 0"
    by (simp add: uninitialized_iff)
  then have eq: "check_arg_id i p = (True, p\<lparr>m_next_arg_id := - 1\<rparr>)"
    by (simp add: check_arg_id_def)
  show "fst (check_arg_id i p) = True"
    by (simp add: eq)
  show "numbering_state (snd (check_arg_id i p)) = Explicit_locked"
    by (simp add: eq minus_one_locked)
next
  assume "numbering_state p = Automatic"
  then show "check_arg_id i p = (False, p)"
    by (simp add: automatic_iff check_arg_id_def)
qed

theorem arg_numbering_state_machine_witness:
  "next_arg_id \<lparr>m_next_arg_id = 0\<rparr> = (0, \<lparr>m_next_arg_id = 1\<rparr>)
   \<and> next_arg_id \<lparr>m_next_arg_id = 5\<rparr> = (5, \<lparr>m_next_arg_id = 6\<rparr>)
   \<and> numbering_state (snd (next_arg_id \<lparr>m_next_arg_id = 0\<rparr>)) = Automatic
   \<and> next_arg_id \<lparr>m_next_arg_id = - 1\<rparr> = (0, \<lparr>m_next_arg_id = - 1\<rparr>)
   \<and> fst (check_arg_id 7 \<lparr>m_next_arg_id = 0\<rparr>)
   \<and> numbering_state (snd (check_arg_id 7 \<lparr>m_next_arg_id = 0\<rparr>)) = Explicit_locked
   \<and> check_arg_id 7 \<lparr>m_next_arg_id = 5\<rparr> = (False, \<lparr>m_next_arg_id = 5\<rparr>)
   \<and> fst (check_arg_id 7 \<lparr>m_next_arg_id = - 1\<rparr>)"
proof -
  have u: "numbering_state \<lparr>m_next_arg_id = 0\<rparr> = Uninitialized"
    by (simp add: numbering_state_def)
  have a: "numbering_state \<lparr>m_next_arg_id = 5\<rparr> = Automatic"
    by (simp add: numbering_state_def word_sless_alt)
  have l: "numbering_state \<lparr>m_next_arg_id = - 1\<rparr> = Explicit_locked"
    by (simp add: numbering_state_def word_sless_alt)
  have m: "m_next_arg_id \<lparr>m_next_arg_id = 0\<rparr> \<noteq> INT_MAX"
    by (simp add: INT_MAX_def)
  show ?thesis
    using arg_numbering_state_machine [of "\<lparr>m_next_arg_id = 0\<rparr>" 7]
      arg_numbering_state_machine [of "\<lparr>m_next_arg_id = 5\<rparr>" 7]
      arg_numbering_state_machine [of "\<lparr>m_next_arg_id = - 1\<rparr>" 7]
      u a l m
    by (simp add: numbering_state_def word_sless_alt)
qed

section \<open>Resolution paths of the binder\<close>

lemma do_get_arg_parse_context [simp]:
  "do_get_arg (ctx\<lparr>parse_context := p\<rparr>) i = do_get_arg ctx i"
  by (simp add: do_get_arg_def)

lemma next_arg_unlocked:
  "numbering_state (parse_context ctx) \<noteq> Explicit_locked \<Longrightarrow>
   next_arg ctx =
     (do_get_arg ctx (scast (m_next_arg_id (parse_context ctx))),
      ctx\<lparr>parse_context := (parse_context ctx)
              \<lparr>m_next_arg_id := m_next_arg_id (parse_context ctx) + 1\<rparr>\<rparr>)"
  by (simp add: next_arg_def next_arg_id_def unlocked_iff)

lemma next_arg_locked:
  "numbering_state (parse_context ctx) = Explicit_locked \<Longrightarrow>
   next_arg ctx = (do_get_arg ctx 0, ctx)"
  by (simp add: next_arg_def next_arg_id_def locked_iff word_sless_alt word_sle_eq)

lemma arg_not_automatic:
  "numbering_state (parse_context ctx) \<noteq> Automatic \<Longrightarrow>
   arg i ctx =
     (do_get_arg ctx i, ctx\<lparr>parse_context := (parse_context ctx)\<lparr>m_next_arg_id := - 1\<rparr>\<rparr>)"
  by (simp add: arg_def check_arg_id_def automatic_iff)

lemma arg_automatic:
  "numbering_state (parse_context ctx) = Automatic \<Longrightarrow> arg i ctx = (Inr None, ctx)"
  by (simp add: arg_def check_arg_id_def automatic_iff)

section \<open>Claim C3: absent slots\<close>

text \<open>
  Claim C3. For every argument store and every index \<open>i\<close>: when the store has
  no slot for \<open>i\<close> and \<^verbatim>\<open>check_id(i - 1)\<close> is false, resolution yields the
  error \<^verbatim>\<open>invalid_argument\<close> with the message "Argument id out of range";
  when the store has no slot for \<open>i\<close> and \<^verbatim>\<open>check_id(i - 1)\<close> is true,
  resolution yields the empty result and no error. Both halves are stated for
  \<^verbatim>\<open>do_get_arg\<close> itself, for the explicit path \<^verbatim>\<open>arg(i)\<close> whenever it
  reaches the store, and for the automatic path \<^verbatim>\<open>next_arg()\<close>: when the
  counter is \<open>i\<close>, and in the explicit-locked state, where the index handed
  out is 0. The index is a \<^verbatim>\<open>size_t\<close>, so at \<open>i = 0\<close> the store is asked about
  the id \<open>0 - 1 = 2^64 - 1\<close>.
\<close>

theorem do_get_arg_absent_slot:
  fixes ctx :: "('p, 'slot) arg_context_base" and i :: size_t
  shows
    "(get (m_args ctx) i = None \<and> \<not> check_id (m_args ctx) (i - 1) \<longrightarrow>
        do_get_arg ctx i = Inl (Error invalid_argument ''Argument id out of range'')
        \<and> (numbering_state (parse_context ctx) \<noteq> Automatic \<longrightarrow>
             fst (arg i ctx) = Inl (Error invalid_argument ''Argument id out of range''))
        \<and> (numbering_state (parse_context ctx) \<noteq> Explicit_locked
             \<and> scast (m_next_arg_id (parse_context ctx)) = i \<longrightarrow>
             fst (next_arg ctx) = Inl (Error invalid_argument ''Argument id out of range''))
        \<and> (numbering_state (parse_context ctx) = Explicit_locked \<and> i = 0 \<longrightarrow>
             fst (next_arg ctx) = Inl (Error invalid_argument ''Argument id out of range'')))
     \<and> (get (m_args ctx) i = None \<and> check_id (m_args ctx) (i - 1) \<longrightarrow>
        do_get_arg ctx i = Inr None
        \<and> (numbering_state (parse_context ctx) \<noteq> Automatic \<longrightarrow> fst (arg i ctx) = Inr None)
        \<and> (numbering_state (parse_context ctx) \<noteq> Explicit_locked
             \<and> scast (m_next_arg_id (parse_context ctx)) = i \<longrightarrow>
             fst (next_arg ctx) = Inr None)
        \<and> (numbering_state (parse_context ctx) = Explicit_locked \<and> i = 0 \<longrightarrow>
             fst (next_arg ctx) = Inr None))"
  by (auto simp: do_get_arg_def arg_not_automatic next_arg_unlocked next_arg_locked)

theorem do_get_arg_absent_slot_witness:
  "do_get_arg \<lparr>parse_context = \<lparr>m_next_arg_id = 0\<rparr>, m_args = list_store ([] :: nat list)\<rparr> 0
     = Inl (Error invalid_argument ''Argument id out of range'')
   \<and> fst (next_arg \<lparr>parse_context = \<lparr>m_next_arg_id = 0\<rparr>, m_args = list_store ([] :: nat list)\<rparr>)
     = Inl (Error invalid_argument ''Argument id out of range'')
   \<and> fst (arg 3 \<lparr>parse_context = \<lparr>m_next_arg_id = 0\<rparr>, m_args = list_store [10, 20 :: nat]\<rparr>)
     = Inl (Error invalid_argument ''Argument id out of range'')
   \<and> fst (next_arg \<lparr>parse_context = \<lparr>m_next_arg_id = 3\<rparr>, m_args = list_store [10, 20 :: nat]\<rparr>)
     = Inl (Error invalid_argument ''Argument id out of range'')
   \<and> fst (arg 2 \<lparr>parse_context = \<lparr>m_next_arg_id = 0\<rparr>, m_args = list_store [10, 20 :: nat]\<rparr>)
     = Inr None
   \<and> fst (next_arg \<lparr>parse_context = \<lparr>m_next_arg_id = 2\<rparr>, m_args = list_store [10, 20 :: nat]\<rparr>)
     = Inr None"
proof -
  let ?c0 = "\<lparr>parse_context = \<lparr>m_next_arg_id = 0\<rparr>, m_args = list_store ([] :: nat list)\<rparr>"
  let ?c2 = "\<lparr>parse_context = \<lparr>m_next_arg_id = 0\<rparr>, m_args = list_store [10, 20 :: nat]\<rparr>"
  let ?at2 = "\<lparr>parse_context = \<lparr>m_next_arg_id = 2\<rparr>, m_args = list_store [10, 20 :: nat]\<rparr>"
  let ?at3 = "\<lparr>parse_context = \<lparr>m_next_arg_id = 3\<rparr>, m_args = list_store [10, 20 :: nat]\<rparr>"
  have a: "get (m_args ?c0) 0 = None \<and> \<not> check_id (m_args ?c0) (0 - 1)
           \<and> numbering_state (parse_context ?c0) \<noteq> Explicit_locked
           \<and> scast (m_next_arg_id (parse_context ?c0)) = (0 :: size_t)"
    by (simp add: list_store_def numbering_state_def)
  have b: "get (m_args ?c2) 3 = None \<and> \<not> check_id (m_args ?c2) (3 - 1)
           \<and> numbering_state (parse_context ?c2) \<noteq> Automatic"
    by (simp add: list_store_def numbering_state_def)
  have c: "get (m_args ?at3) 3 = None \<and> \<not> check_id (m_args ?at3) (3 - 1)
           \<and> numbering_state (parse_context ?at3) \<noteq> Explicit_locked
           \<and> scast (m_next_arg_id (parse_context ?at3)) = (3 :: size_t)"
    by (simp add: list_store_def numbering_state_def word_sless_alt)
  have d: "get (m_args ?c2) 2 = None \<and> check_id (m_args ?c2) (2 - 1)
           \<and> numbering_state (parse_context ?c2) \<noteq> Automatic"
    by (simp add: list_store_def numbering_state_def)
  have e: "get (m_args ?at2) 2 = None \<and> check_id (m_args ?at2) (2 - 1)
           \<and> numbering_state (parse_context ?at2) \<noteq> Explicit_locked
           \<and> scast (m_next_arg_id (parse_context ?at2)) = (2 :: size_t)"
    by (simp add: list_store_def numbering_state_def word_sless_alt)
  have "do_get_arg ?c0 0 = Inl (Error invalid_argument ''Argument id out of range'')
        \<and> fst (next_arg ?c0) = Inl (Error invalid_argument ''Argument id out of range'')"
    using do_get_arg_absent_slot [of ?c0 0] a by blast
  moreover have "fst (arg 3 ?c2) = Inl (Error invalid_argument ''Argument id out of range'')"
    using do_get_arg_absent_slot [of ?c2 3] b by blast
  moreover have "fst (next_arg ?at3) = Inl (Error invalid_argument ''Argument id out of range'')"
    using do_get_arg_absent_slot [of ?at3 3] c by blast
  moreover have "fst (arg 2 ?c2) = Inr None"
    using do_get_arg_absent_slot [of ?c2 2] d by blast
  moreover have "fst (next_arg ?at2) = Inr None"
    using do_get_arg_absent_slot [of ?at2 2] e by blast
  ultimately show ?thesis
    by blast
qed

section \<open>Runs of requests\<close>

lemma resolve_all_append:
  "resolve_all (rs1 @ rs2) ctx =
     (case resolve_all rs1 ctx of
        (xs, c1) \<Rightarrow> (case resolve_all rs2 c1 of (ys, c2) \<Rightarrow> (xs @ ys, c2)))"
  by (induction rs1 arbitrary: ctx) (auto split: prod.splits)

lemma length_resolve_all: "length (fst (resolve_all rs ctx)) = length rs"
proof (induction rs arbitrary: ctx)
  case Nil
  show ?case by simp
next
  case (Cons r rs)
  obtain x c1 where r1: "resolve r ctx = (x, c1)"
    by (cases "resolve r ctx")
  obtain xs c2 where r2: "resolve_all rs c1 = (xs, c2)"
    by (cases "resolve_all rs c1")
  have "length xs = length rs"
    using Cons.IH [of c1] by (simp add: r2)
  then show ?case
    by (simp add: r1 r2)
qed

section \<open>Claim C9: named arguments\<close>

text \<open>
  Claim C9. For every name, resolving a named argument returns the empty
  sentinel, which is neither a slot nor a failure, and leaves the context, and
  with it the numbering state, as it was; the check of a named id is a no-op. So
  numbering goes on as if the named directive had not been resolved: in a run of
  requests, taking a named request out changes neither the final context nor the
  result of any other request.
\<close>

theorem arg_name_empty_sentinel:
  fixes ctx :: "('p, 'slot) arg_context_base"
  shows "arg_name name ctx = (Inr None, ctx)
         \<and> check_arg_id_name name p = p
         \<and> next_arg (snd (arg_name name ctx)) = next_arg ctx
         \<and> snd (resolve_all (rs1 @ Arg_name name # rs2) ctx) = snd (resolve_all (rs1 @ rs2) ctx)
         \<and> fst (resolve_all (rs1 @ Arg_name name # rs2) ctx)
             = take (length rs1) (fst (resolve_all (rs1 @ rs2) ctx))
               @ Inr None # drop (length rs1) (fst (resolve_all (rs1 @ rs2) ctx))"
proof -
  obtain xs c1 where r1: "resolve_all rs1 ctx = (xs, c1)"
    by (cases "resolve_all rs1 ctx")
  obtain ys c2 where r2: "resolve_all rs2 c1 = (ys, c2)"
    by (cases "resolve_all rs2 c1")
  have len: "length xs = length rs1"
    using length_resolve_all [of rs1 ctx] by (simp add: r1)
  have without: "resolve_all (rs1 @ rs2) ctx = (xs @ ys, c2)"
    by (simp add: resolve_all_append r1 r2)
  have "with": "resolve_all (rs1 @ Arg_name name # rs2) ctx = (xs @ Inr None # ys, c2)"
    by (simp add: resolve_all_append r1 r2 arg_name_def)
  show ?thesis
    by (simp add: without "with" len arg_name_def check_arg_id_name_def)
qed

theorem arg_name_empty_sentinel_witness:
  "arg_name ''x'' \<lparr>parse_context = \<lparr>m_next_arg_id = 0\<rparr>, m_args = list_store [10, 20 :: nat]\<rparr>
     = (Inr None, \<lparr>parse_context = \<lparr>m_next_arg_id = 0\<rparr>, m_args = list_store [10, 20 :: nat]\<rparr>)
   \<and> fst (resolve_all ([Next_arg] @ Arg_name ''x'' # [Next_arg])
          \<lparr>parse_context = \<lparr>m_next_arg_id = 0\<rparr>, m_args = list_store [10, 20 :: nat]\<rparr>)
     = [Inr (Some 10), Inr None, Inr (Some 20)]"
proof -
  let ?c = "\<lparr>parse_context = \<lparr>m_next_arg_id = 0\<rparr>, m_args = list_store [10, 20 :: nat]\<rparr>"
  note named = arg_name_empty_sentinel
    [of "''x''" ?c "\<lparr>m_next_arg_id = 0\<rparr>" "[Next_arg]" "[Next_arg]"]
  have base: "fst (resolve_all ([Next_arg] @ [Next_arg]) ?c) = [Inr (Some 10), Inr (Some 20)]"
    by (simp add: next_arg_def next_arg_id_def do_get_arg_def list_store_def word_sle_eq)
  have "fst (resolve_all ([Next_arg] @ Arg_name ''x'' # [Next_arg]) ?c)
          = take (length [Next_arg]) (fst (resolve_all ([Next_arg] @ [Next_arg]) ?c))
            @ Inr None # drop (length [Next_arg]) (fst (resolve_all ([Next_arg] @ [Next_arg]) ?c))"
    using named by blast
  then have "fst (resolve_all ([Next_arg] @ Arg_name ''x'' # [Next_arg]) ?c)
          = [Inr (Some 10), Inr None, Inr (Some 20)]"
    unfolding base by simp
  moreover have "arg_name ''x'' ?c = (Inr None, ?c)"
    using named by blast
  ultimately show ?thesis
    by blast
qed

section \<open>Claim C10: the next character in the positional dialect\<close>

text \<open>
  Claim C10. In the positional dialect \<^verbatim>\<open>next()\<close> is a precondition violation
  in every state: its body is \<^verbatim>\<open>SCN_EXPECT(false); SCN_UNREACHABLE;\<close>, so the
  call ends in the violation and returns no character at all. The violation is a
  value of its own type \<open>abort\<close>, not one of the error kinds that a scan
  reports for bad input.
\<close>

theorem empty_next_fails:
  fixes s :: "'a basic_empty_parse_context_scheme"
  shows "empty_next s = Inl Precondition_violation \<and> (\<forall>c. empty_next s \<noteq> Inr c)"
  by (simp add: empty_next_def)

theorem empty_next_fails_witness:
  "empty_next (basic_empty_parse_context 2) = Inl Precondition_violation
   \<and> empty_next (basic_empty_parse_context 0) = Inl Precondition_violation"
  using empty_next_fails [of "basic_empty_parse_context 2"]
    empty_next_fails [of "basic_empty_parse_context 0"]
  by simp

section \<open>Runs of automatic and of explicit requests\<close>

lemma sint_of_nat_small:
  assumes "k < 2 ^ 31"
  shows "sint (of_nat k :: c_int) = int k"
proof -
  have "sint (of_nat k :: c_int) = signed_take_bit 31 (int k)"
    by (simp add: signed_of_nat)
  also have "\<dots> = int k"
    using assms by (simp add: signed_take_bit_int_eq_self)
  finally show ?thesis .
qed

lemma scast_of_nat_small:
  assumes "k < 2 ^ 31"
  shows "(scast (of_nat k :: c_int) :: size_t) = of_nat k"
proof -
  have "(scast (of_nat k :: c_int) :: size_t) = word_of_int (sint (of_nat k :: c_int))"
    by (simp only: scast_eq)
  also have "\<dots> = word_of_int (int k)"
    by (simp only: sint_of_nat_small [OF assms])
  finally show ?thesis
    by simp
qed

lemma of_nat_unlocked:
  assumes "k < 2 ^ 31"
  shows "0 \<le>s (of_nat k :: c_int)"
  by (simp add: word_sle_eq sint_of_nat_small [OF assms])

lemma next_arg_run:
  fixes ctx :: "('p, 'slot) arg_context_base"
  assumes "m_next_arg_id (parse_context ctx) = of_nat k" and "k + n < 2 ^ 31"
  shows "resolve_all (replicate n Next_arg) ctx =
           (map (\<lambda>j. do_get_arg ctx (of_nat j)) [k..<k + n],
            ctx\<lparr>parse_context := (parse_context ctx)\<lparr>m_next_arg_id := of_nat (k + n)\<rparr>\<rparr>)"
  using assms
proof (induction n arbitrary: k ctx)
  case 0
  then show ?case by simp
next
  case (Suc n)
  let ?ctx' = "ctx\<lparr>parse_context := (parse_context ctx)\<lparr>m_next_arg_id := of_nat (Suc k)\<rparr>\<rparr>"
  have k: "k < 2 ^ 31"
    using Suc.prems(2) by simp
  have step: "next_arg ctx = (do_get_arg ctx (of_nat k), ?ctx')"
    using of_nat_unlocked [OF k] Suc.prems(1)
    by (simp add: next_arg_def next_arg_id_def scast_of_nat_small [OF k])
  have rest: "resolve_all (replicate n Next_arg) ?ctx' =
           (map (\<lambda>j. do_get_arg ?ctx' (of_nat j)) [Suc k..<Suc k + n],
            ?ctx'\<lparr>parse_context := (parse_context ?ctx')\<lparr>m_next_arg_id := of_nat (Suc k + n)\<rparr>\<rparr>)"
    using Suc.prems(2) by (intro Suc.IH) simp_all
  have upt: "[k..<k + Suc n] = k # [Suc k..<Suc k + n]"
    by (simp add: upt_conv_Cons)
  have "resolve_all (replicate (Suc n) Next_arg) ctx =
          (do_get_arg ctx (of_nat k) # fst (resolve_all (replicate n Next_arg) ?ctx'),
           snd (resolve_all (replicate n Next_arg) ?ctx'))"
    by (simp add: step split: prod.splits)
  then show ?case
    unfolding rest upt by simp
qed

lemma arg_run:
  fixes ctx :: "('p, 'slot) arg_context_base"
  assumes "numbering_state (parse_context ctx) \<noteq> Automatic"
  shows "fst (resolve_all (map Arg ids) ctx) = map (do_get_arg ctx) ids"
  using assms
proof (induction ids arbitrary: ctx)
  case Nil
  show ?case by simp
next
  case (Cons i ids)
  let ?ctx' = "ctx\<lparr>parse_context := (parse_context ctx)\<lparr>m_next_arg_id := - 1\<rparr>\<rparr>"
  have step: "arg i ctx = (do_get_arg ctx i, ?ctx')"
    using Cons.prems by (rule arg_not_automatic)
  have "numbering_state (parse_context ?ctx') \<noteq> Automatic"
    by (simp add: minus_one_locked)
  then have "fst (resolve_all (map Arg ids) ?ctx') = map (do_get_arg ?ctx') ids"
    by (rule Cons.IH)
  then have rest: "fst (resolve_all (map Arg ids) ?ctx') = map (do_get_arg ctx) ids"
    by simp
  have "fst (resolve_all (map Arg (i # ids)) ctx)
          = do_get_arg ctx i # fst (resolve_all (map Arg ids) ?ctx')"
    by (simp add: step split: prod.splits)
  then show ?case
    unfolding rest by simp
qed

lemma do_get_arg_present:
  "get (m_args ctx) i = Some a \<Longrightarrow> do_get_arg ctx i = Inr (Some a)"
  by (simp add: do_get_arg_def)

section \<open>Claim C2: the order of resolution\<close>

text \<open>
  Claim C2. On a fresh context, a format string that uses only automatic
  directives resolves them to the arguments 0, 1, 2, ... in order: the results
  of \<open>n\<close> calls of \<^verbatim>\<open>next_arg()\<close> are the lookups of the indices \<open>0\<close> to
  \<open>n - 1\<close>, so the \<open>n\<close>-th directive (counting from 1) is looked up at index
  \<open>n - 1\<close>. A format string that uses only explicit directives resolves each
  \<^verbatim>\<open>{N}\<close> to the lookup of index \<open>N\<close>, wherever it stands; and a lookup at an
  index for which the store has a slot returns that slot. The bound on \<open>n\<close>
  keeps the 32-bit counter below its signed overflow.
\<close>

theorem directives_resolve_in_order:
  fixes ctx :: "('p, 'slot) arg_context_base"
  assumes "m_next_arg_id (parse_context ctx) = 0"
  shows "(n < 2 ^ 31 \<longrightarrow>
            fst (resolve_all (replicate n Next_arg) ctx)
              = map (\<lambda>k. do_get_arg ctx (of_nat k)) [0..<n])
         \<and> fst (resolve_all (map Arg ids) ctx) = map (do_get_arg ctx) ids
         \<and> (\<forall>i a. get (m_args ctx) i = Some a \<longrightarrow> do_get_arg ctx i = Inr (Some a))"
proof (intro conjI impI allI)
  assume "n < 2 ^ 31"
  then show "fst (resolve_all (replicate n Next_arg) ctx)
               = map (\<lambda>k. do_get_arg ctx (of_nat k)) [0..<n]"
    using next_arg_run [of ctx 0 n] assms by simp
next
  have "numbering_state (parse_context ctx) \<noteq> Automatic"
    using assms by (simp add: numbering_state_def)
  then show "fst (resolve_all (map Arg ids) ctx) = map (do_get_arg ctx) ids"
    by (rule arg_run)
next
  fix i a
  assume "get (m_args ctx) i = Some a"
  then show "do_get_arg ctx i = Inr (Some a)"
    by (rule do_get_arg_present)
qed

theorem directives_resolve_in_order_witness:
  "fst (resolve_all (replicate 3 Next_arg)
         \<lparr>parse_context = \<lparr>m_next_arg_id = 0\<rparr>, m_args = list_store [10, 20, 30 :: nat]\<rparr>)
     = [Inr (Some 10), Inr (Some 20), Inr (Some 30)]
   \<and> fst (resolve_all (map Arg [2, 0, 2])
         \<lparr>parse_context = \<lparr>m_next_arg_id = 0\<rparr>, m_args = list_store [10, 20, 30 :: nat]\<rparr>)
     = [Inr (Some 30), Inr (Some 10), Inr (Some 30)]"
proof -
  let ?c = "\<lparr>parse_context = \<lparr>m_next_arg_id = 0\<rparr>, m_args = list_store [10, 20, 30 :: nat]\<rparr>"
  have fresh: "m_next_arg_id (parse_context ?c) = 0"
    by simp
  have slots: "do_get_arg ?c 0 = Inr (Some 10) \<and> do_get_arg ?c 1 = Inr (Some 20)
               \<and> do_get_arg ?c 2 = Inr (Some 30)"
    by (simp add: do_get_arg_def list_store_def)
  have upt3: "[0..<3] = [0, Suc 0, Suc (Suc 0)]"
    by (simp add: upt_conv_Cons)
  have small: "(3 :: nat) < 2 ^ 31"
    by simp
  note ordered = directives_resolve_in_order [OF fresh, of 3 "[2, 0, 2]"]
  have "fst (resolve_all (replicate 3 Next_arg) ?c)
          = map (\<lambda>k. do_get_arg ?c (of_nat k)) [0..<3]"
    using ordered small by blast
  then have auto_part: "fst (resolve_all (replicate 3 Next_arg) ?c)
          = [Inr (Some 10), Inr (Some 20), Inr (Some 30)]"
    unfolding upt3 by (simp add: slots)
  have "fst (resolve_all (map Arg [2, 0, 2]) ?c) = map (do_get_arg ?c) [2, 0, 2]"
    using ordered by blast
  then have explicit_part: "fst (resolve_all (map Arg [2, 0, 2]) ?c)
          = [Inr (Some 30), Inr (Some 10), Inr (Some 30)]"
    by (simp add: slots)
  show ?thesis
    using auto_part explicit_part by blast
qed

section \<open>Mixing automatic and explicit directives\<close>

lemma do_get_arg_kind:
  "do_get_arg ctx i \<noteq> Inl (Error invalid_format_string msg)"
  by (simp add: do_get_arg_def Let_def)

lemma resolve_kind:
  "fst (resolve r ctx) \<noteq> Inl (Error invalid_format_string msg)"
proof (cases r)
  case Next_arg
  then show ?thesis
    by (simp add: next_arg_def Let_def do_get_arg_kind split: prod.splits)
next
  case (Arg i)
  then show ?thesis
    by (simp add: arg_def Let_def do_get_arg_kind split: prod.splits)
next
  case (Arg_name name)
  then show ?thesis
    by (simp add: arg_name_def)
qed

lemma fresh_then_next_arg:
  assumes "m_next_arg_id (parse_context ctx) = 0"
  shows "next_arg ctx =
           (do_get_arg ctx 0, ctx\<lparr>parse_context := (parse_context ctx)\<lparr>m_next_arg_id := 1\<rparr>\<rparr>)"
  using assms by (simp add: next_arg_def next_arg_id_def)

lemma one_automatic: "numbering_state (p\<lparr>m_next_arg_id := 1\<rparr>) = Automatic"
  by (simp add: automatic_iff word_sless_alt)

section \<open>Claim C1: a format string with both styles\<close>

text \<open>
  Claim C1 says that a format string with both \<^verbatim>\<open>{}\<close> and \<^verbatim>\<open>{0}\<close> fails
  with \<^verbatim>\<open>invalid_format_string\<close> at the second style, in either order. The
  binder does something else, and the statement proved here is the amended one.
  On a fresh context, when the automatic directive comes first, the explicit
  directive yields the empty result, which is a value and not an error, without
  a lookup in the store and without a change of state: \<^verbatim>\<open>check_arg_id\<close>
  returns false and \<^verbatim>\<open>arg\<close> turns that into \<^verbatim>\<open>arg_type()\<close>. When the explicit
  directive comes first, the automatic directive is looked up at index 0:
  \<^verbatim>\<open>next_arg_id\<close> returns 0 in the explicit-locked state and has no way to
  report anything else. No resolution path of the binder produces the kind
  \<^verbatim>\<open>invalid_format_string\<close>.
\<close>

theorem mixed_numbering_resolution:
  fixes ctx :: "('p, 'slot) arg_context_base"
  shows "(m_next_arg_id (parse_context ctx) = 0 \<longrightarrow>
            fst (resolve_all [Next_arg, Arg i] ctx) = [do_get_arg ctx 0, Inr None]
            \<and> fst (resolve_all [Arg i, Next_arg] ctx) = [do_get_arg ctx i, do_get_arg ctx 0])
         \<and> (numbering_state (parse_context ctx) = Automatic \<longrightarrow> arg i ctx = (Inr None, ctx))
         \<and> (numbering_state (parse_context ctx) = Explicit_locked \<longrightarrow>
              next_arg ctx = (do_get_arg ctx 0, ctx))
         \<and> fst (resolve r ctx) \<noteq> Inl (Error invalid_format_string msg)"
proof (intro conjI impI)
  assume fresh: "m_next_arg_id (parse_context ctx) = 0"
  let ?a = "ctx\<lparr>parse_context := (parse_context ctx)\<lparr>m_next_arg_id := 1\<rparr>\<rparr>"
  let ?e = "ctx\<lparr>parse_context := (parse_context ctx)\<lparr>m_next_arg_id := - 1\<rparr>\<rparr>"
  have "arg i ?a = (Inr None, ?a)"
    by (rule arg_automatic) (simp add: one_automatic)
  then show "fst (resolve_all [Next_arg, Arg i] ctx) = [do_get_arg ctx 0, Inr None]"
    by (simp add: fresh_then_next_arg [OF fresh])
  have "numbering_state (parse_context ctx) \<noteq> Automatic"
    using fresh by (simp add: numbering_state_def)
  then have first: "arg i ctx = (do_get_arg ctx i, ?e)"
    by (rule arg_not_automatic)
  have "next_arg ?e = (do_get_arg ?e 0, ?e)"
    by (rule next_arg_locked) (simp add: minus_one_locked)
  then have second: "next_arg ?e = (do_get_arg ctx 0, ?e)"
    by simp
  show "fst (resolve_all [Arg i, Next_arg] ctx) = [do_get_arg ctx i, do_get_arg ctx 0]"
    by (simp add: first second)
next
  assume "numbering_state (parse_context ctx) = Automatic"
  then show "arg i ctx = (Inr None, ctx)"
    by (rule arg_automatic)
next
  assume "numbering_state (parse_context ctx) = Explicit_locked"
  then show "next_arg ctx = (do_get_arg ctx 0, ctx)"
    by (rule next_arg_locked)
next
  show "fst (resolve r ctx) \<noteq> Inl (Error invalid_format_string msg)"
    by (rule resolve_kind)
qed

theorem mixed_numbering_resolution_witness:
  "fst (resolve_all [Next_arg, Arg 1]
         \<lparr>parse_context = \<lparr>m_next_arg_id = 0\<rparr>, m_args = list_store [10, 20 :: nat]\<rparr>)
     = [Inr (Some 10), Inr None]
   \<and> fst (resolve_all [Arg 1, Next_arg]
         \<lparr>parse_context = \<lparr>m_next_arg_id = 0\<rparr>, m_args = list_store [10, 20 :: nat]\<rparr>)
     = [Inr (Some 20), Inr (Some 10)]
   \<and> arg 1 \<lparr>parse_context = \<lparr>m_next_arg_id = 1\<rparr>, m_args = list_store [10, 20 :: nat]\<rparr>
     = (Inr None, \<lparr>parse_context = \<lparr>m_next_arg_id = 1\<rparr>, m_args = list_store [10, 20 :: nat]\<rparr>)
   \<and> next_arg \<lparr>parse_context = \<lparr>m_next_arg_id = - 1\<rparr>, m_args = list_store [10, 20 :: nat]\<rparr>
     = (Inr (Some 10),
        \<lparr>parse_context = \<lparr>m_next_arg_id = - 1\<rparr>, m_args = list_store [10, 20 :: nat]\<rparr>)"
proof -
  let ?c = "\<lparr>parse_context = \<lparr>m_next_arg_id = 0\<rparr>, m_args = list_store [10, 20 :: nat]\<rparr>"
  let ?a = "\<lparr>parse_context = \<lparr>m_next_arg_id = 1\<rparr>, m_args = list_store [10, 20 :: nat]\<rparr>"
  let ?e = "\<lparr>parse_context = \<lparr>m_next_arg_id = - 1\<rparr>, m_args = list_store [10, 20 :: nat]\<rparr>"
  have fresh: "m_next_arg_id (parse_context ?c) = 0"
    by simp
  have automatic: "numbering_state (parse_context ?a) = Automatic"
    by (simp add: numbering_state_def word_sless_alt)
  have locked: "numbering_state (parse_context ?e) = Explicit_locked"
    by (simp add: numbering_state_def word_sless_alt)
  have slots: "do_get_arg ?c 0 = Inr (Some 10) \<and> do_get_arg ?c 1 = Inr (Some 20)
               \<and> do_get_arg ?e 0 = Inr (Some 10)"
    by (simp add: do_get_arg_def list_store_def)
  show ?thesis
    using mixed_numbering_resolution [of ?c 1] mixed_numbering_resolution [of ?a 1]
      mixed_numbering_resolution [of ?e] fresh automatic locked slots
    by simp
qed

text \<open>
  The claim as it is written fails on a store with one argument: in the order
  \<^verbatim>\<open>{} {0}\<close> the second directive gets the empty result, in the order
  \<^verbatim>\<open>{0} {}\<close> it gets argument 0 once more, and neither is an error.
\<close>

theorem mixed_numbering_counterexample:
  "fst (resolve_all [Next_arg, Arg 0]
         \<lparr>parse_context = \<lparr>m_next_arg_id = 0\<rparr>, m_args = list_store [10 :: nat]\<rparr>)
     = [Inr (Some 10), Inr None]
   \<and> fst (resolve_all [Arg 0, Next_arg]
         \<lparr>parse_context = \<lparr>m_next_arg_id = 0\<rparr>, m_args = list_store [10 :: nat]\<rparr>)
     = [Inr (Some 10), Inr (Some 10)]"
  by (simp add: next_arg_def next_arg_id_def arg_def check_arg_id_def do_get_arg_def
      list_store_def word_sle_eq word_sless_alt)

section \<open>The id scan of the brace dialect\<close>

text \<open>
  On a view that is not empty, the source's \<^verbatim>\<open>good\<close>, \<^verbatim>\<open>check_arg_end\<close>,
  \<^verbatim>\<open>next\<close> and \<^verbatim>\<open>advance\<close> are what the second equation of
  \<open>parse_arg_id_loop\<close> reads off the pattern \<open>c # cs\<close>.
\<close>

lemma parse_arg_id_loop_body:
  assumes "m_str s = c # cs"
  shows "good s \<and> check_arg_end loc s = Inr (c = CHR ''}'') \<and> next s = Inr c
         \<and> advance 1 s = Inr (s\<lparr>m_str := cs\<rparr>)"
  using assms by (simp add: good_def check_arg_end_def next_def advance_def)

lemma parse_arg_id_loop_closing:
  assumes "CHR ''}'' \<notin> set pre" and "CHR '':'' \<notin> set pre"
  shows "parse_arg_id_loop it i (pre @ CHR ''}'' # post)
           = (Inr (take (i + length pre) it), CHR ''}'' # post)"
  using assms by (induction pre arbitrary: i) auto

lemma parse_arg_id_loop_colon:
  assumes "CHR ''}'' \<notin> set pre" and "CHR '':'' \<notin> set pre"
  shows "parse_arg_id_loop it i (pre @ CHR '':'' # post) = (Inr (take (i + length pre) it), post)"
  using assms by (induction pre arbitrary: i) auto

lemma parse_arg_id_loop_end:
  assumes "CHR ''}'' \<notin> set rest" and "CHR '':'' \<notin> set rest"
  shows "parse_arg_id_loop it i rest
           = (Inl (Error invalid_format_string ''Unexpected end of format argument''), [])"
  using assms by (induction rest arbitrary: i) auto

lemma parse_arg_id_unfold:
  assumes "m_str s = c # rest"
  shows "parse_arg_id loc s =
           (if rest = []
            then Inr (Inl (Error invalid_format_string ''Unexpected end of format argument''),
                      s\<lparr>m_str := []\<rparr>)
            else Inr (fst (parse_arg_id_loop rest 0 rest),
                      s\<lparr>m_str := snd (parse_arg_id_loop rest 0 rest)\<rparr>))"
  using assms by (simp add: parse_arg_id_def good_def advance_def split: prod.splits)

section \<open>Claim C5: \<^verbatim>\<open>parse_arg_id\<close> in the brace dialect\<close>

text \<open>
  Claim C5. \<^verbatim>\<open>parse_arg_id\<close> advances past the opening \<^verbatim>\<open>{\<close>; then, for
  every suffix \<open>rest\<close> that follows it: if a \<^verbatim>\<open>}\<close> is reached first, the call
  succeeds with the characters \<open>pre\<close> passed so far as the id text (empty for
  \<^verbatim>\<open>{}\<close>) and the cursor at the \<^verbatim>\<open>}\<close>; if a \<^verbatim>\<open>:\<close> is reached first, the
  call consumes the \<^verbatim>\<open>:\<close> and succeeds with \<open>pre\<close>, the cursor at the start
  of the format-spec suffix; if the end of the string is reached first, which
  includes the case that \<^verbatim>\<open>{\<close> is the last character, the call fails with
  \<^verbatim>\<open>invalid_format_string\<close> and the message "Unexpected end of format
  argument". The three cases cover every \<open>rest\<close>.
\<close>

theorem parse_arg_id_scans_id:
  fixes s :: "'a basic_parse_context_scheme"
  assumes "m_str s = CHR ''{'' # rest"
  shows "(rest = pre @ CHR ''}'' # post \<and> CHR ''}'' \<notin> set pre \<and> CHR '':'' \<notin> set pre \<longrightarrow>
            parse_arg_id loc s = Inr (Inr pre, s\<lparr>m_str := CHR ''}'' # post\<rparr>))
         \<and> (rest = pre @ CHR '':'' # post \<and> CHR ''}'' \<notin> set pre \<and> CHR '':'' \<notin> set pre \<longrightarrow>
            parse_arg_id loc s = Inr (Inr pre, s\<lparr>m_str := post\<rparr>))
         \<and> (CHR ''}'' \<notin> set rest \<and> CHR '':'' \<notin> set rest \<longrightarrow>
            parse_arg_id loc s =
              Inr (Inl (Error invalid_format_string ''Unexpected end of format argument''),
                   s\<lparr>m_str := []\<rparr>))"
proof (intro conjI impI)
  assume a: "rest = pre @ CHR ''}'' # post \<and> CHR ''}'' \<notin> set pre \<and> CHR '':'' \<notin> set pre"
  then have "parse_arg_id_loop rest 0 rest = (Inr (take (0 + length pre) rest), CHR ''}'' # post)"
    using parse_arg_id_loop_closing [of pre rest 0 post] by simp
  then show "parse_arg_id loc s = Inr (Inr pre, s\<lparr>m_str := CHR ''}'' # post\<rparr>)"
    using a by (simp add: parse_arg_id_unfold [OF assms])
next
  assume a: "rest = pre @ CHR '':'' # post \<and> CHR ''}'' \<notin> set pre \<and> CHR '':'' \<notin> set pre"
  then have "parse_arg_id_loop rest 0 rest = (Inr (take (0 + length pre) rest), post)"
    using parse_arg_id_loop_colon [of pre rest 0 post] by simp
  then show "parse_arg_id loc s = Inr (Inr pre, s\<lparr>m_str := post\<rparr>)"
    using a by (simp add: parse_arg_id_unfold [OF assms])
next
  assume a: "CHR ''}'' \<notin> set rest \<and> CHR '':'' \<notin> set rest"
  then have "parse_arg_id_loop rest 0 rest
           = (Inl (Error invalid_format_string ''Unexpected end of format argument''), [])"
    using parse_arg_id_loop_end [of rest rest 0] by simp
  then show "parse_arg_id loc s =
              Inr (Inl (Error invalid_format_string ''Unexpected end of format argument''),
                   s\<lparr>m_str := []\<rparr>)"
    by (simp add: parse_arg_id_unfold [OF assms])
qed

theorem parse_arg_id_scans_id_witness:
  "parse_arg_id c_locale (basic_parse_context ''{} x'')
     = Inr (Inr [], \<lparr>m_next_arg_id = 0, m_str = ''} x''\<rparr>)
   \<and> parse_arg_id c_locale (basic_parse_context ''{12:d} x'')
     = Inr (Inr ''12'', \<lparr>m_next_arg_id = 0, m_str = ''d} x''\<rparr>)
   \<and> parse_arg_id c_locale (basic_parse_context ''{12'')
     = Inr (Inl (Error invalid_format_string ''Unexpected end of format argument''),
            \<lparr>m_next_arg_id = 0, m_str = []\<rparr>)
   \<and> parse_arg_id c_locale (basic_parse_context ''{'')
     = Inr (Inl (Error invalid_format_string ''Unexpected end of format argument''),
            \<lparr>m_next_arg_id = 0, m_str = []\<rparr>)"
proof -
  have a: "m_str (basic_parse_context ''{} x'') = CHR ''{'' # ''} x''"
    by (simp add: basic_parse_context_def)
  have b: "m_str (basic_parse_context ''{12:d} x'') = CHR ''{'' # ''12:d} x''"
    by (simp add: basic_parse_context_def)
  have c: "m_str (basic_parse_context ''{12'') = CHR ''{'' # ''12''"
    by (simp add: basic_parse_context_def)
  have d: "m_str (basic_parse_context ''{'') = CHR ''{'' # []"
    by (simp add: basic_parse_context_def)
  have "parse_arg_id c_locale (basic_parse_context ''{} x'')
          = Inr (Inr [], (basic_parse_context ''{} x'')\<lparr>m_str := CHR ''}'' # '' x''\<rparr>)"
    using parse_arg_id_scans_id [OF a, of "[]" "'' x''" c_locale] by simp
  moreover have "parse_arg_id c_locale (basic_parse_context ''{12:d} x'')
          = Inr (Inr ''12'', (basic_parse_context ''{12:d} x'')\<lparr>m_str := ''d} x''\<rparr>)"
    using parse_arg_id_scans_id [OF b, of "''12''" "''d} x''" c_locale] by simp
  moreover have "parse_arg_id c_locale (basic_parse_context ''{12'')
          = Inr (Inl (Error invalid_format_string ''Unexpected end of format argument''),
                 (basic_parse_context ''{12'')\<lparr>m_str := []\<rparr>)"
    using parse_arg_id_scans_id [OF c, of "[]" "[]" c_locale] by simp
  moreover have "parse_arg_id c_locale (basic_parse_context ''{'')
          = Inr (Inl (Error invalid_format_string ''Unexpected end of format argument''),
                 (basic_parse_context ''{'')\<lparr>m_str := []\<rparr>)"
    using parse_arg_id_scans_id [OF d, of "[]" "[]" c_locale] by simp
  ultimately show ?thesis
    by (simp add: basic_parse_context_def)
qed

section \<open>Claim C7: escaped braces and percent signs\<close>

text \<open>
  Claim C7. Wherever in a format string \<^verbatim>\<open>{{\<close> begins, the escape check
  \<^verbatim>\<open>should_read_literal\<close> consumes one of the two characters and reports a
  literal; the literal that matches is then exactly \<^verbatim>\<open>{\<close>, and the advance
  that follows the match leaves the cursor behind both characters. The same
  holds for \<^verbatim>\<open>}}\<close> with the literal \<^verbatim>\<open>}\<close>, and in the percent dialect for
  \<^verbatim>\<open>%%\<close> with the literal \<^verbatim>\<open>%\<close>, at every offset \<open>m_it\<close> at which the pair
  stands. So each pair gives one literal character and moves the cursor by two.
\<close>

theorem escapes_yield_one_literal:
  fixes s :: "'a basic_parse_context_scheme" and t :: "'b basic_scanf_parse_context_scheme"
  shows "(m_str s = CHR ''{'' # CHR ''{'' # rest \<longrightarrow>
            should_read_literal loc s = Inr (True, s\<lparr>m_str := CHR ''{'' # rest\<rparr>)
            \<and> check_literal ch (s\<lparr>m_str := CHR ''{'' # rest\<rparr>) = Inr (ch = CHR ''{'')
            \<and> advance 1 (s\<lparr>m_str := CHR ''{'' # rest\<rparr>) = Inr (s\<lparr>m_str := rest\<rparr>))
         \<and> (m_str s = CHR ''}'' # CHR ''}'' # rest \<longrightarrow>
            should_read_literal loc s = Inr (True, s\<lparr>m_str := CHR ''}'' # rest\<rparr>)
            \<and> check_literal ch (s\<lparr>m_str := CHR ''}'' # rest\<rparr>) = Inr (ch = CHR ''}'')
            \<and> advance 1 (s\<lparr>m_str := CHR ''}'' # rest\<rparr>) = Inr (s\<lparr>m_str := rest\<rparr>))
         \<and> (m_it t + 1 < length (scanf_m_str t)
              \<and> scanf_m_str t ! m_it t = CHR ''%''
              \<and> scanf_m_str t ! (m_it t + 1) = CHR ''%'' \<longrightarrow>
            scanf_should_read_literal loc t = Inr (True, t\<lparr>m_it := m_it t + 1\<rparr>)
            \<and> scanf_check_literal ch (t\<lparr>m_it := m_it t + 1\<rparr>) = Inr (ch = CHR ''%'')
            \<and> scanf_advance 1 (t\<lparr>m_it := m_it t + 1\<rparr>) = Inr (t\<lparr>m_it := m_it t + 2\<rparr>))"
proof (intro conjI impI)
  assume a: "m_str s = CHR ''{'' # CHR ''{'' # rest"
  show "should_read_literal loc s = Inr (True, s\<lparr>m_str := CHR ''{'' # rest\<rparr>)"
    using a by (simp add: should_read_literal_def next_def advance_def good_def)
  show "check_literal ch (s\<lparr>m_str := CHR ''{'' # rest\<rparr>) = Inr (ch = CHR ''{'')"
    by (simp add: check_literal_def next_def)
  show "advance 1 (s\<lparr>m_str := CHR ''{'' # rest\<rparr>) = Inr (s\<lparr>m_str := rest\<rparr>)"
    by (simp add: advance_def good_def)
next
  assume a: "m_str s = CHR ''}'' # CHR ''}'' # rest"
  show "should_read_literal loc s = Inr (True, s\<lparr>m_str := CHR ''}'' # rest\<rparr>)"
    using a by (simp add: should_read_literal_def next_def advance_def good_def)
  show "check_literal ch (s\<lparr>m_str := CHR ''}'' # rest\<rparr>) = Inr (ch = CHR ''}'')"
    by (simp add: check_literal_def next_def)
  show "advance 1 (s\<lparr>m_str := CHR ''}'' # rest\<rparr>) = Inr (s\<lparr>m_str := rest\<rparr>)"
    by (simp add: advance_def good_def)
next
  assume a: "m_it t + 1 < length (scanf_m_str t)
              \<and> scanf_m_str t ! m_it t = CHR ''%''
              \<and> scanf_m_str t ! (m_it t + 1) = CHR ''%''"
  show "scanf_should_read_literal loc t = Inr (True, t\<lparr>m_it := m_it t + 1\<rparr>)"
    using a by (simp add: scanf_should_read_literal_def scanf_next_def scanf_advance_def
        scanf_good_def)
  show "scanf_check_literal ch (t\<lparr>m_it := m_it t + 1\<rparr>) = Inr (ch = CHR ''%'')"
    using a by (simp add: scanf_check_literal_def scanf_next_def)
  show "scanf_advance 1 (t\<lparr>m_it := m_it t + 1\<rparr>) = Inr (t\<lparr>m_it := m_it t + 2\<rparr>)"
    using a by (simp add: scanf_advance_def scanf_good_def)
qed

theorem escapes_yield_one_literal_witness:
  "should_read_literal c_locale (basic_parse_context ''{{a'')
     = Inr (True, \<lparr>m_next_arg_id = 0, m_str = ''{a''\<rparr>)
   \<and> check_literal (CHR ''{'') \<lparr>m_next_arg_id = 0, m_str = ''{a''\<rparr> = Inr True
   \<and> advance 1 \<lparr>m_next_arg_id = 0, m_str = ''{a''\<rparr> = Inr \<lparr>m_next_arg_id = 0, m_str = ''a''\<rparr>
   \<and> should_read_literal c_locale (basic_parse_context ''}}a'')
     = Inr (True, \<lparr>m_next_arg_id = 0, m_str = ''}a''\<rparr>)
   \<and> check_literal (CHR ''}'') \<lparr>m_next_arg_id = 0, m_str = ''}a''\<rparr> = Inr True
   \<and> advance 1 \<lparr>m_next_arg_id = 0, m_str = ''}a''\<rparr> = Inr \<lparr>m_next_arg_id = 0, m_str = ''a''\<rparr>
   \<and> scanf_should_read_literal c_locale \<lparr>m_next_arg_id = 0, scanf_m_str = ''a%%b'', m_it = 1\<rparr>
     = Inr (True, \<lparr>m_next_arg_id = 0, scanf_m_str = ''a%%b'', m_it = 2\<rparr>)
   \<and> scanf_check_literal (CHR ''%'') \<lparr>m_next_arg_id = 0, scanf_m_str = ''a%%b'', m_it = 2\<rparr>
     = Inr True
   \<and> scanf_advance 1 \<lparr>m_next_arg_id = 0, scanf_m_str = ''a%%b'', m_it = 2\<rparr>
     = Inr \<lparr>m_next_arg_id = 0, scanf_m_str = ''a%%b'', m_it = 3\<rparr>"
proof -
  let ?t = "\<lparr>m_next_arg_id = 0, scanf_m_str = ''a%%b'', m_it = 1\<rparr>"
  have p: "m_it ?t + 1 < length (scanf_m_str ?t)
              \<and> scanf_m_str ?t ! m_it ?t = CHR ''%''
              \<and> scanf_m_str ?t ! (m_it ?t + 1) = CHR ''%''"
    by simp
  have o: "m_str (basic_parse_context ''{{a'') = CHR ''{'' # CHR ''{'' # ''a''"
    by (simp add: basic_parse_context_def)
  have c: "m_str (basic_parse_context ''}}a'') = CHR ''}'' # CHR ''}'' # ''a''"
    by (simp add: basic_parse_context_def)
  show ?thesis
    using escapes_yield_one_literal [of "basic_parse_context ''{{a''" "''a''" c_locale "CHR ''{''" ?t]
      escapes_yield_one_literal [of "basic_parse_context ''}}a''" "''a''" c_locale "CHR ''}''" ?t]
      escapes_yield_one_literal [of "basic_parse_context ''}}a''" "''a''" c_locale "CHR ''%''" ?t]
      p o c
    by (simp add: basic_parse_context_def eval_nat_numeral)
qed

section \<open>The end of a directive in the percent dialect\<close>

lemma scanf_check_arg_end_cases:
  assumes "m_it s \<le> length (scanf_m_str s)"
  shows "scanf_check_arg_end loc s =
           Inr (m_it s = length (scanf_m_str s)
                \<or> (m_it s < length (scanf_m_str s)
                    \<and> (scanf_m_str s ! m_it s = CHR ''%''
                        \<or> is_space loc (scanf_m_str s ! m_it s))))"
  using assms
  by (auto simp: scanf_check_arg_end_def scanf_check_arg_begin_def scanf_next_def scanf_good_def)

lemma scanf_arg_begin_leaves_start:
  "scanf_arg_begin s0 = Inr s \<Longrightarrow> 0 < m_it s"
  by (auto simp: scanf_arg_begin_def scanf_advance_def split: if_splits)

lemma scanf_advance_inside:
  assumes "scanf_advance n s = Inr s'"
  shows "m_it s \<le> m_it s' \<and> m_it s' \<le> length (scanf_m_str s')
         \<and> scanf_m_str s' = scanf_m_str s"
  using assms by (auto simp: scanf_advance_def split: if_splits)

lemma scanf_advances_inside:
  assumes "scanf_advances ns s = Inr s'" and "m_it s \<le> length (scanf_m_str s)"
  shows "m_it s \<le> m_it s' \<and> m_it s' \<le> length (scanf_m_str s')
         \<and> scanf_m_str s' = scanf_m_str s"
  using assms
proof (induction ns arbitrary: s)
  case Nil
  then show ?case by simp
next
  case (Cons n ns)
  from Cons.prems(1) obtain s1 where
    first: "scanf_advance n s = Inr s1" and rest: "scanf_advances ns s1 = Inr s'"
    by (cases "scanf_advance n s") auto
  have one: "m_it s \<le> m_it s1 \<and> m_it s1 \<le> length (scanf_m_str s1)
             \<and> scanf_m_str s1 = scanf_m_str s"
    using first by (rule scanf_advance_inside)
  then have inside: "m_it s1 \<le> length (scanf_m_str s1)"
    by blast
  have "m_it s1 \<le> m_it s' \<and> m_it s' \<le> length (scanf_m_str s')
             \<and> scanf_m_str s' = scanf_m_str s1"
    using rest inside by (rule Cons.IH)
  then show ?case
    using one by auto
qed

lemma scanf_in_directive:
  assumes "scanf_arg_begin s0 = Inr s1" and "scanf_advances ns s1 = Inr s"
  shows "0 < m_it s \<and> m_it s \<le> length (scanf_m_str s)"
proof -
  have "scanf_advance 1 s0 = Inr s1"
    using assms(1) by (simp add: scanf_arg_begin_def)
  then have entry: "m_it s0 \<le> m_it s1 \<and> m_it s1 \<le> length (scanf_m_str s1)
                    \<and> scanf_m_str s1 = scanf_m_str s0"
    by (rule scanf_advance_inside)
  have "0 < m_it s1"
    using assms(1) by (rule scanf_arg_begin_leaves_start)
  moreover have inside: "m_it s1 \<le> length (scanf_m_str s1)"
    using entry by blast
  moreover have "m_it s1 \<le> m_it s \<and> m_it s \<le> length (scanf_m_str s)
                 \<and> scanf_m_str s = scanf_m_str s1"
    using assms(2) inside by (rule scanf_advances_inside)
  ultimately show ?thesis
    by auto
qed

lemma scanf_arg_end_retreats:
  assumes "0 < m_it s" and "m_it s \<le> length (scanf_m_str s)" and "scanf_good s"
  shows "scanf_arg_end s = Inr (s\<lparr>m_it := m_it s - 1\<rparr>)
         \<and> scanf_advance 1 (s\<lparr>m_it := m_it s - 1\<rparr>) = Inr s"
proof -
  have "m_it s - 1 \<noteq> length (scanf_m_str s)" and "m_it s - 1 + 1 = m_it s"
    using assms by linarith+
  then have "scanf_advance 1 (s\<lparr>m_it := m_it s - 1\<rparr>) = Inr s"
    using assms(2) by (simp add: scanf_advance_def scanf_good_def)
  moreover have "scanf_arg_end s = Inr (s\<lparr>m_it := m_it s - 1\<rparr>)"
    using assms by (simp add: scanf_arg_end_def backward_def)
  ultimately show ?thesis
    by simp
qed

section \<open>Claim C6: termination and exit of a percent directive\<close>

text \<open>
  Claim C6. Inside a directive, that is in any state reached from
  \<^verbatim>\<open>arg_begin\<close> by moves of the cursor, \<^verbatim>\<open>check_arg_end\<close> is true in exactly
  three cases: the cursor is at the end of the input, the next character is
  \<^verbatim>\<open>%\<close>, or the locale classifies the next character as a space. On
  directive exit, \<^verbatim>\<open>arg_end\<close> moves the cursor back by exactly one position
  whenever it is not at the end of the input, and leaves it where it is at the
  end of the input. After the retreat one advance puts the cursor on the same
  character again, which is then the next character: a terminating space is
  still ahead of the cursor and left to the caller, not consumed by the
  directive.
\<close>

theorem scanf_directive_end:
  fixes s :: "'a basic_scanf_parse_context_scheme"
  assumes "scanf_arg_begin s0 = Inr s1" and "scanf_advances ns s1 = Inr s"
  shows "scanf_check_arg_end loc s =
           Inr (m_it s = length (scanf_m_str s)
                \<or> (m_it s < length (scanf_m_str s)
                    \<and> (scanf_m_str s ! m_it s = CHR ''%''
                        \<or> is_space loc (scanf_m_str s ! m_it s))))
         \<and> (scanf_good s \<longrightarrow>
              scanf_arg_end s = Inr (s\<lparr>m_it := m_it s - 1\<rparr>)
              \<and> scanf_advance 1 (s\<lparr>m_it := m_it s - 1\<rparr>) = Inr s
              \<and> scanf_next s = Inr (scanf_m_str s ! m_it s))
         \<and> (\<not> scanf_good s \<longrightarrow> scanf_arg_end s = Inr s)"
proof -
  have inside: "0 < m_it s \<and> m_it s \<le> length (scanf_m_str s)"
    using assms by (rule scanf_in_directive)
  have ends: "scanf_check_arg_end loc s =
           Inr (m_it s = length (scanf_m_str s)
                \<or> (m_it s < length (scanf_m_str s)
                    \<and> (scanf_m_str s ! m_it s = CHR ''%''
                        \<or> is_space loc (scanf_m_str s ! m_it s))))"
    using inside by (intro scanf_check_arg_end_cases) simp
  have retreat: "scanf_good s \<longrightarrow>
              scanf_arg_end s = Inr (s\<lparr>m_it := m_it s - 1\<rparr>)
              \<and> scanf_advance 1 (s\<lparr>m_it := m_it s - 1\<rparr>) = Inr s
              \<and> scanf_next s = Inr (scanf_m_str s ! m_it s)"
  proof
    assume g: "scanf_good s"
    then have "m_it s < length (scanf_m_str s)"
      using inside by (simp add: scanf_good_def)
    then have "scanf_next s = Inr (scanf_m_str s ! m_it s)"
      by (simp add: scanf_next_def)
    then show "scanf_arg_end s = Inr (s\<lparr>m_it := m_it s - 1\<rparr>)
              \<and> scanf_advance 1 (s\<lparr>m_it := m_it s - 1\<rparr>) = Inr s
              \<and> scanf_next s = Inr (scanf_m_str s ! m_it s)"
      using scanf_arg_end_retreats [of s] inside g by simp
  qed
  have stay: "\<not> scanf_good s \<longrightarrow> scanf_arg_end s = Inr s"
    by (simp add: scanf_arg_end_def)
  show ?thesis
    using ends retreat stay by blast
qed

theorem scanf_directive_end_witness:
  "scanf_check_arg_end c_locale \<lparr>m_next_arg_id = 0, scanf_m_str = ''%d %d'', m_it = 2\<rparr> = Inr True
   \<and> scanf_arg_end \<lparr>m_next_arg_id = 0, scanf_m_str = ''%d %d'', m_it = 2\<rparr>
     = Inr \<lparr>m_next_arg_id = 0, scanf_m_str = ''%d %d'', m_it = 1\<rparr>
   \<and> scanf_advance 1 \<lparr>m_next_arg_id = 0, scanf_m_str = ''%d %d'', m_it = 1\<rparr>
     = Inr \<lparr>m_next_arg_id = 0, scanf_m_str = ''%d %d'', m_it = 2\<rparr>
   \<and> scanf_next \<lparr>m_next_arg_id = 0, scanf_m_str = ''%d %d'', m_it = 2\<rparr> = Inr (CHR '' '')
   \<and> scanf_check_arg_end c_locale \<lparr>m_next_arg_id = 0, scanf_m_str = ''%d'', m_it = 2\<rparr> = Inr True
   \<and> scanf_arg_end \<lparr>m_next_arg_id = 0, scanf_m_str = ''%d'', m_it = 2\<rparr>
     = Inr \<lparr>m_next_arg_id = 0, scanf_m_str = ''%d'', m_it = 2\<rparr>"
proof -
  let ?fresh_a = "basic_scanf_parse_context ''%d %d''"
  let ?entered_a = "\<lparr>m_next_arg_id = 0, scanf_m_str = ''%d %d'', m_it = 1\<rparr>"
  let ?space_a = "\<lparr>m_next_arg_id = 0, scanf_m_str = ''%d %d'', m_it = 2\<rparr>"
  let ?fresh_b = "basic_scanf_parse_context ''%d''"
  let ?entered_b = "\<lparr>m_next_arg_id = 0, scanf_m_str = ''%d'', m_it = 1\<rparr>"
  let ?end_b = "\<lparr>m_next_arg_id = 0, scanf_m_str = ''%d'', m_it = 2\<rparr>"
  have enter: "scanf_arg_begin ?fresh_a = Inr ?entered_a"
    by (simp add: scanf_arg_begin_def scanf_advance_def scanf_good_def
        basic_scanf_parse_context_def)
  have move: "scanf_advances [1] ?entered_a = Inr ?space_a"
    by (simp add: scanf_advance_def scanf_good_def)
  have enter': "scanf_arg_begin ?fresh_b = Inr ?entered_b"
    by (simp add: scanf_arg_begin_def scanf_advance_def scanf_good_def
        basic_scanf_parse_context_def)
  have move': "scanf_advances [1] ?entered_b = Inr ?end_b"
    by (simp add: scanf_advance_def scanf_good_def)
  have gs: "scanf_good ?space_a" and gt: "\<not> scanf_good ?end_b"
    by (simp_all add: scanf_good_def)
  note at_space = scanf_directive_end [OF enter move, of c_locale]
  note at_end = scanf_directive_end [OF enter' move', of c_locale]
  have "scanf_check_arg_end c_locale ?space_a = Inr True"
    using at_space by (simp add: c_locale_def)
  moreover have "scanf_arg_end ?space_a = Inr (?space_a\<lparr>m_it := m_it ?space_a - 1\<rparr>)
                 \<and> scanf_advance 1 (?space_a\<lparr>m_it := m_it ?space_a - 1\<rparr>) = Inr ?space_a
                 \<and> scanf_next ?space_a = Inr (scanf_m_str ?space_a ! m_it ?space_a)"
    using at_space gs by blast
  moreover have "scanf_check_arg_end c_locale ?end_b = Inr True"
    using at_end by simp
  moreover have "scanf_arg_end ?end_b = Inr ?end_b"
    using at_end gt by blast
  ultimately show ?thesis
    by simp
qed

section \<open>Counting and skipping in the positional dialect\<close>

lemma sint_pred_in_range:
  fixes m :: c_int
  assumes "0 <s m"
  shows "sint (m - 1) = sint m - 1"
proof -
  have lo: "0 < sint m"
    using assms by (simp add: word_sless_alt)
  have hi: "sint m < 2 ^ 31"
    using sint_lt [of m] by simp
  have "sint (m - 1) = signed_take_bit 31 (sint m - 1)"
    by (simp add: sint_word_ariths)
  also have "\<dots> = sint m - 1"
    using lo hi by (simp add: signed_take_bit_int_eq_self)
  finally show ?thesis .
qed

lemma m_args_left_handled:
  "m_args_left (empty_arg_handled s) = m_args_left s - 1"
  by (simp add: empty_arg_handled_def)

lemma m_args_left_after_handled:
  fixes N :: c_int
  assumes "k \<le> nat (sint N)"
  shows "sint (m_args_left ((empty_arg_handled ^^ k) (basic_empty_parse_context N)))
           = sint N - int k"
  using assms
proof (induction k)
  case 0
  show ?case by (simp add: basic_empty_parse_context_def)
next
  case (Suc k)
  let ?s = "(empty_arg_handled ^^ k) (basic_empty_parse_context N)"
  have before: "sint (m_args_left ?s) = sint N - int k"
    using Suc by simp
  then have "0 <s m_args_left ?s"
    using Suc.prems by (simp add: word_sless_alt)
  then have "sint (m_args_left ?s - 1) = sint (m_args_left ?s) - 1"
    by (rule sint_pred_in_range)
  then show ?case
    using before by (simp add: m_args_left_handled)
qed

lemma should_skip_ws_calls_cleared:
  assumes "\<not> m_should_skip_ws s"
  shows "should_skip_ws_calls loc n s = (replicate n False, s)"
  using assms by (induction n) (simp_all add: empty_should_skip_ws_def)

lemma should_skip_ws_calls_armed:
  assumes "m_should_skip_ws s"
  shows "should_skip_ws_calls loc (Suc n) s
           = (True # replicate n False, s\<lparr>m_should_skip_ws := False\<rparr>)"
  using assms
  by (simp add: empty_should_skip_ws_def should_skip_ws_calls_cleared)

section \<open>Claim C8: the positional dialect\<close>

text \<open>
  Claim C8, as amended. A positional context built with a count \<open>N \<ge> 0\<close>
  expects exactly \<open>N\<close> directives: after \<open>k \<le> N\<close> calls of \<^verbatim>\<open>arg_handled\<close>
  the remaining count is \<open>N - k\<close>, the cursor is good exactly while \<open>k < N\<close>,
  and it is exhausted exactly when the remaining count is zero.
  \<^verbatim>\<open>should_skip_ws\<close> returns the one-shot flag and clears it;
  \<^verbatim>\<open>arg_handled\<close> decrements the count and arms the flag. So after each
  \<^verbatim>\<open>arg_handled\<close>, of any number of \<^verbatim>\<open>should_skip_ws\<close> calls the first
  returns true and all later ones false: between two consecutive
  \<^verbatim>\<open>arg_handled\<close> calls there is one permitted skip and no more. Before the
  first directive there is none, since the flag starts cleared; the claim as
  written permits one skip before each directive.
\<close>

theorem positional_count_and_skip:
  fixes N :: c_int and s :: "'a basic_empty_parse_context_scheme"
  assumes "0 \<le>s N" and "k \<le> nat (sint N)"
  shows "sint (m_args_left ((empty_arg_handled ^^ k) (basic_empty_parse_context N)))
           = sint N - int k
         \<and> empty_good ((empty_arg_handled ^^ k) (basic_empty_parse_context N))
             = (k < nat (sint N))
         \<and> (\<not> empty_good ((empty_arg_handled ^^ k) (basic_empty_parse_context N)))
             = (m_args_left ((empty_arg_handled ^^ k) (basic_empty_parse_context N)) = 0)
         \<and> empty_should_skip_ws loc s = (m_should_skip_ws s, s\<lparr>m_should_skip_ws := False\<rparr>)
         \<and> empty_arg_handled s
             = s\<lparr>m_should_skip_ws := True, m_args_left := m_args_left s - 1\<rparr>
         \<and> fst (should_skip_ws_calls loc (Suc n) (empty_arg_handled s)) = True # replicate n False
         \<and> fst (should_skip_ws_calls loc n (basic_empty_parse_context N)) = replicate n False"
proof -
  let ?s = "(empty_arg_handled ^^ k) (basic_empty_parse_context N)"
  have left: "sint (m_args_left ?s) = sint N - int k"
    using assms(2) by (rule m_args_left_after_handled)
  have nonneg: "0 \<le> sint N"
    using assms(1) by (simp add: word_sle_eq)
  have good: "empty_good ?s = (k < nat (sint N))"
    using left nonneg by (auto simp: empty_good_def word_sless_alt)
  have "(m_args_left ?s = 0) = (sint (m_args_left ?s) = 0)"
    by (simp add: signed_eq_0_iff)
  also have "\<dots> = (\<not> k < nat (sint N))"
    using left nonneg assms(2) by auto
  finally have zero: "(\<not> empty_good ?s) = (m_args_left ?s = 0)"
    using good by simp
  have skip: "empty_should_skip_ws loc s = (m_should_skip_ws s, s\<lparr>m_should_skip_ws := False\<rparr>)"
    by (simp add: empty_should_skip_ws_def)
  have handled: "empty_arg_handled s
             = s\<lparr>m_should_skip_ws := True, m_args_left := m_args_left s - 1\<rparr>"
    by (simp add: empty_arg_handled_def)
  have armed: "fst (should_skip_ws_calls loc (Suc n) (empty_arg_handled s))
                 = True # replicate n False"
    by (subst should_skip_ws_calls_armed) (simp_all add: empty_arg_handled_def)
  have cleared: "fst (should_skip_ws_calls loc n (basic_empty_parse_context N))
                 = replicate n False"
    by (subst should_skip_ws_calls_cleared) (simp_all add: basic_empty_parse_context_def)
  show ?thesis
    using left good zero skip handled armed cleared by blast
qed

theorem positional_count_and_skip_witness:
  "empty_good (basic_empty_parse_context 2)
   \<and> empty_good (empty_arg_handled (basic_empty_parse_context 2))
   \<and> \<not> empty_good (empty_arg_handled (empty_arg_handled (basic_empty_parse_context 2)))
   \<and> fst (should_skip_ws_calls c_locale 3 (empty_arg_handled (basic_empty_parse_context 2)))
       = [True, False, False]
   \<and> fst (should_skip_ws_calls c_locale 2 (basic_empty_parse_context 2)) = [False, False]"
proof -
  have count: "0 \<le>s (2 :: c_int)"
    by (simp add: word_sle_eq)
  have k0: "0 \<le> nat (sint (2 :: c_int))" and k1: "Suc 0 \<le> nat (sint (2 :: c_int))"
    and k2: "Suc (Suc 0) \<le> nat (sint (2 :: c_int))"
    by simp_all
  note at0 = positional_count_and_skip
    [OF count k0, of c_locale "basic_empty_parse_context 2" "Suc (Suc 0)"]
  note at1 = positional_count_and_skip
    [OF count k1, of c_locale "basic_empty_parse_context 2" "Suc (Suc 0)"]
  note at2 = positional_count_and_skip
    [OF count k2, of c_locale "basic_empty_parse_context 2" "Suc (Suc 0)"]
  have "empty_good ((empty_arg_handled ^^ 0) (basic_empty_parse_context 2))
          = (0 < nat (sint (2 :: c_int)))"
    using at0 by blast
  then have g0: "empty_good (basic_empty_parse_context 2)"
    by simp
  have "empty_good ((empty_arg_handled ^^ Suc 0) (basic_empty_parse_context 2))
          = (Suc 0 < nat (sint (2 :: c_int)))"
    using at1 by blast
  then have g1: "empty_good (empty_arg_handled (basic_empty_parse_context 2))"
    by simp
  have "empty_good ((empty_arg_handled ^^ Suc (Suc 0)) (basic_empty_parse_context 2))
          = (Suc (Suc 0) < nat (sint (2 :: c_int)))"
    using at2 by blast
  then have g2:
    "\<not> empty_good (empty_arg_handled (empty_arg_handled (basic_empty_parse_context 2)))"
    by simp
  have three: "(3 :: nat) = Suc (Suc (Suc 0))" and two: "(2 :: nat) = Suc (Suc 0)"
    by simp_all
  have "fst (should_skip_ws_calls c_locale (Suc (Suc (Suc 0)))
               (empty_arg_handled (basic_empty_parse_context 2)))
          = True # replicate (Suc (Suc 0)) False"
    using at0 by blast
  then have armed:
    "fst (should_skip_ws_calls c_locale 3 (empty_arg_handled (basic_empty_parse_context 2)))
       = [True, False, False]"
    unfolding three by simp
  have "fst (should_skip_ws_calls c_locale (Suc (Suc 0)) (basic_empty_parse_context 2))
          = replicate (Suc (Suc 0)) False"
    using at0 by blast
  then have cleared:
    "fst (should_skip_ws_calls c_locale 2 (basic_empty_parse_context 2)) = [False, False]"
    unfolding two by simp
  show ?thesis
    using g0 g1 g2 armed cleared by blast
qed

text \<open>
  The claim as it is written fails before the first directive of a context built
  with the count 2: the cursor is good, a directive is due, and
  \<^verbatim>\<open>should_skip_ws\<close> answers false.
\<close>

theorem positional_skip_counterexample:
  "empty_good (basic_empty_parse_context 2)
   \<and> empty_should_skip_ws c_locale (basic_empty_parse_context 2)
       = (False, basic_empty_parse_context 2)"
  by (simp add: basic_empty_parse_context_def empty_good_def empty_should_skip_ws_def
      word_sless_alt)

end
